theory Spec2Isabelle
  imports Complex_Main "HOL-Library.Sublist"
begin

section \<open>Strings and paths\<close>

text \<open>
  A Python string is a list of characters. One Isabelle \<open>char\<close> stands for one Python
  character with a code point below 256, so \<open>length\<close> is Python's \<open>len\<close> on such text.
\<close>

abbreviation NL :: char where "NL \<equiv> CHR 0x0A"
abbreviation CR :: char where "CR \<equiv> CHR 0x0D"

text \<open>\<open>str.isspace\<close> and the regular expression class \<open>\s\<close> on code points below 256.\<close>

definition is_space :: "char \<Rightarrow> bool" where
  "is_space c = (c \<in> set [CHR 0x09, NL, CHR 0x0B, CHR 0x0C, CR, CHR 0x1C, CHR 0x1D,
                           CHR 0x1E, CHR 0x1F, CHR '' '', CHR 0x85, CHR 0xA0])"

text \<open>The regular expression class \<open>\d\<close> on code points below 256.\<close>

definition is_digit :: "char \<Rightarrow> bool" where
  "is_digit c = (c \<in> set ''0123456789'')"

definition strip :: "string \<Rightarrow> string" where
  "strip s = rev (dropWhile is_space (rev (dropWhile is_space s)))"

definition digit_char :: "nat \<Rightarrow> char" where
  "digit_char d = ''0123456789'' ! d"

text \<open>\<open>str(n)\<close> for a non-negative integer.\<close>

fun str_nat :: "nat \<Rightarrow> string" where
  "str_nat n = (if n < 10 then [digit_char n] else str_nat (n div 10) @ [digit_char (n mod 10)])"

declare str_nat.simps [simp del]

definition str_int :: "int \<Rightarrow> string" where
  "str_int i = (if i < 0 then CHR ''-'' # str_nat (nat (- i)) else str_nat (nat i))"

text \<open>\<open>sep.join(xs)\<close>.\<close>

fun join :: "string \<Rightarrow> string list \<Rightarrow> string" where
  "join sep [] = []"
| "join sep [x] = x"
| "join sep (x # y # ys) = x @ sep @ join sep (y # ys)"

text \<open>\<open>str.lower\<close> on code points below 256.\<close>

definition lower_char :: "char \<Rightarrow> char" where
  "lower_char c = (let n = (of_char c :: nat) in
     if (65 \<le> n \<and> n \<le> 90) \<or> (192 \<le> n \<and> n \<le> 222 \<and> n \<noteq> 215) then char_of (n + 32) else c)"

definition lower :: "string \<Rightarrow> string" where
  "lower s = map lower_char s"

text \<open>\<open>os.path.join\<close>, \<open>os.path.basename\<close> and the extension of \<open>os.path.splitext\<close> (POSIX).\<close>

definition os_path_join :: "string \<Rightarrow> string \<Rightarrow> string" where
  "os_path_join a b =
     (if b \<noteq> [] \<and> hd b = CHR ''/'' then b
      else if a = [] \<or> last a = CHR ''/'' then a @ b
      else a @ ''/'' @ b)"

definition basename :: "string \<Rightarrow> string" where
  "basename p = rev (takeWhile (\<lambda>c. c \<noteq> CHR ''/'') (rev p))"

definition splitext_ext :: "string \<Rightarrow> string" where
  "splitext_ext p =
     (let base = basename p;
          tail = rev (takeWhile (\<lambda>c. c \<noteq> CHR ''.'') (rev base));
          stem = take (length base - length tail - 1) base
      in if CHR ''.'' \<in> set base \<and> (\<exists>c \<in> set stem. c \<noteq> CHR ''.'') then CHR ''.'' # tail else [])"

text \<open>
  Text files are opened with the default \<open>newline=None\<close>: written text is stored as it is
  (the line separator is \<open>\n\<close>), and text that is read has \<open>\r\n\<close> and \<open>\r\<close> turned
  into \<open>\n\<close>.
\<close>

fun universal_newlines :: "string \<Rightarrow> string" where
  "universal_newlines [] = []"
| "universal_newlines [c] = [if c = CR then NL else c]"
| "universal_newlines (c # d # ds) =
     (if c = CR \<and> d = NL then NL # universal_newlines ds
      else if c = CR then NL # universal_newlines (d # ds)
      else c # universal_newlines (d # ds))"

section \<open>Data model\<close>

text \<open>Exceptions are values; \<open>str_error\<close> is \<open>str(e)\<close>.\<close>

datatype error =
    ValueError string
  | OSError string
  | JSONDecodeError string
  | KeyError string
  | ServiceError string

fun str_error :: "error \<Rightarrow> string" where
  "str_error (ValueError m) = m"
| "str_error (OSError m) = m"
| "str_error (JSONDecodeError m) = m"
| "str_error (KeyError k) = [CHR 0x27] @ k @ [CHR 0x27]"
| "str_error (ServiceError m) = m"

text \<open>The value under the \<open>page\<close> key: a page number from a loader, or a label.\<close>

datatype page_label = PageInt int | PageStr string

fun str_page :: "page_label \<Rightarrow> string" where
  "str_page (PageInt n) = str_int n"
| "str_page (PageStr s) = s"

text \<open>
  A metadata dictionary, with the keys the program reads or writes; \<open>None\<close> is an absent
  key. The records of the chunk sidecar file are dictionaries of the same shape.
\<close>

record metadata =
  m_page :: "page_label option"
  m_doc_id :: "string option"
  m_chunk_id :: "nat option"
  m_source :: "string option"
  m_citation :: "string option"

record document =
  page_content :: string
  metadata :: metadata

record doc_summary =
  s_doc_id :: string
  s_original_file :: string
  s_file_type :: string
  s_processing_time :: string
  s_chunks_count :: nat
  s_ocr_used :: bool

text \<open>
  The store of persisted artifacts: a path holds chunk-delimited text, the chunk records
  (the parsed content of \<open>_chunks.json\<close>) or the summary (\<open>_metadata.json\<close>).
\<close>

datatype stored_file = TextFile string | ChunksJson "metadata list" | MetadataJson doc_summary

type_synonym filesystem = "string \<Rightarrow> stored_file option"

datatype vector_store = FAISS "document list"

text \<open>
  What the synthesis chain returns: a dictionary, given by its \<open>text\<close> entry if it has one
  and by its \<open>str\<close>, or another value, given by its \<open>str\<close>.
\<close>

datatype synthesis_response = ResponseDict "string option" string | ResponseOther string

text \<open>
  The collaborators outside the repository. A loader, the splitter, the index and the
  language model return a value or raise; \<open>UnstructuredPDFLoader_load\<close> takes the number
  of calls made to it before, so that a second call may answer differently.
\<close>

record services =
  makedirs_error :: "string \<Rightarrow> error option"
  open_write_error :: "string \<Rightarrow> error option"
  strftime_now :: string
  PyPDFLoader_load :: "string \<Rightarrow> error + document list"
  UnstructuredPDFLoader_load :: "nat \<Rightarrow> string \<Rightarrow> error + document list"
  UnstructuredImageLoader_load :: "string \<Rightarrow> error + document list"
  split_documents :: "document list \<Rightarrow> error + document list"
  FAISS_from_documents_error :: "document list \<Rightarrow> error option"
  similarity_search :: "document list \<Rightarrow> string \<Rightarrow> nat \<Rightarrow> error + document list"
  ChatOpenAI_error :: "error option"
  chain_invoke :: "string \<Rightarrow> string \<Rightarrow> error + string"
  synthesis_invoke :: "string \<Rightarrow> string \<Rightarrow> error + synthesis_response"
  modern_synthesis_invoke :: "string \<Rightarrow> string \<Rightarrow> error + string"

section \<open>Extraction pipeline: \<open>document_processor.process_document\<close>\<close>

datatype process_result =
    ProcessSuccess string nat string bool
  | ProcessError string string

text \<open>
  \<open>ProcessSuccess doc_id chunks file_type ocr_used\<close> is the dictionary with status
  \<open>success\<close>; \<open>ProcessError doc_id error\<close> is the one with status \<open>error\<close>, which has no
  \<open>ocr_used\<close> key.
\<close>

text \<open>The choice of loader, with the fall-back to OCR for a PDF (lines 62 to 94).\<close>

definition load_documents :: "services \<Rightarrow> string \<Rightarrow> string \<Rightarrow> error + (document list \<times> bool)" where
  "load_documents env file_path file_ext =
     (if file_ext = ''.pdf'' then
        (case PyPDFLoader_load env file_path of
           Inr documents \<Rightarrow>
             (let total_text = concat (map page_content documents) in
              if length (strip total_text) < 100 then
                (case UnstructuredPDFLoader_load env 0 file_path of
                   Inr documents' \<Rightarrow> Inr (documents', True)
                 | Inl e \<Rightarrow>
                     (case UnstructuredPDFLoader_load env 1 file_path of
                        Inr documents' \<Rightarrow> Inr (documents', True)
                      | Inl e' \<Rightarrow> Inl e'))
              else Inr (documents, False))
         | Inl e \<Rightarrow>
             (case UnstructuredPDFLoader_load env 0 file_path of
                Inr documents \<Rightarrow> Inr (documents, True)
              | Inl e' \<Rightarrow> Inl e'))
      else if file_ext \<in> set [''.jpg'', ''.jpeg'', ''.png'', ''.tiff'', ''.tif''] then
        (case UnstructuredImageLoader_load env file_path of
           Inr documents \<Rightarrow> Inr (documents, True)
         | Inl e \<Rightarrow> Inl e)
      else Inl (ValueError (''Unsupported file type: '' @ file_ext)))"

text \<open>The marker written before chunk \<open>n\<close>.\<close>

definition chunk_marker :: "nat \<Rightarrow> string" where
  "chunk_marker n = NL # ''--- Document Chunk '' @ str_nat n @ '' ---'' @ [NL]"

text \<open>
  The loop over \<open>enumerate(split_docs)\<close> (lines 116 to 136): \<open>i\<close> is the loop index,
  \<open>pages_info\<close> and \<open>full_text\<close> are the accumulators.
\<close>

fun chunk_loop ::
  "string \<Rightarrow> string \<Rightarrow> nat \<Rightarrow> document list \<Rightarrow> metadata list \<Rightarrow> string \<Rightarrow> metadata list \<times> string" where
  "chunk_loop file_path doc_id i [] pages_info full_text = (pages_info, full_text)"
| "chunk_loop file_path doc_id i (doc # rest) pages_info full_text =
     (let md = metadata doc;
          md1 = (if m_page md = None then md\<lparr>m_page := Some (PageInt (int i + 1))\<rparr> else md);
          md2 = md1\<lparr>m_doc_id := Some doc_id\<rparr>;
          page_info = \<lparr>m_page = Some (case m_page md2 of Some p \<Rightarrow> p | None \<Rightarrow> PageStr ''Unknown''),
                       m_doc_id = Some doc_id,
                       m_chunk_id = Some (i + 1),
                       m_source = Some file_path,
                       m_citation = None\<rparr>
      in chunk_loop file_path doc_id (i + 1) rest (pages_info @ [page_info])
           (full_text @ chunk_marker (i + 1) @ page_content doc @ [NL]))"

text \<open>\<open>open(path, 'w')\<close> followed by the write: it raises, or the path holds the new file.\<close>

definition write_file :: "services \<Rightarrow> filesystem \<Rightarrow> string \<Rightarrow> stored_file \<Rightarrow> error + filesystem" where
  "write_file env fs path f =
     (case open_write_error env path of Some e \<Rightarrow> Inl e | None \<Rightarrow> Inr (fs(path \<mapsto> f)))"

definition content_path_of :: "string \<Rightarrow> string" where
  "content_path_of doc_id = os_path_join ''processed'' (doc_id @ ''_content.txt'')"

definition chunks_path_of :: "string \<Rightarrow> string" where
  "chunks_path_of doc_id = os_path_join ''processed'' (doc_id @ ''_chunks.json'')"

definition metadata_path_of :: "string \<Rightarrow> string" where
  "metadata_path_of doc_id = os_path_join ''processed'' (doc_id @ ''_metadata.json'')"

text \<open>
  The part of \<open>process_document\<close> after the choice of loader (lines 96 to 170): the
  split into chunks, the loop, and the three writes, in the order of the source. Each
  step that raises ends in the handler of line 173, with the store as it stands then.
\<close>

definition split_and_save ::
  "services \<Rightarrow> filesystem \<Rightarrow> string \<Rightarrow> string \<Rightarrow> string \<Rightarrow> document list \<Rightarrow> bool
     \<Rightarrow> process_result \<times> filesystem" where
  "split_and_save env fs file_path doc_id file_ext documents ocr_used =
     (case (if documents \<noteq> [] then split_documents env documents else Inr []) of
        Inl e \<Rightarrow> (ProcessError doc_id (str_error e), fs)
      | Inr split_docs \<Rightarrow>
     (let (pages_info, full_text) = chunk_loop file_path doc_id 0 split_docs [] [] in
      case write_file env fs (content_path_of doc_id) (TextFile full_text) of
        Inl e \<Rightarrow> (ProcessError doc_id (str_error e), fs)
      | Inr fs1 \<Rightarrow>
     (case write_file env fs1 (chunks_path_of doc_id) (ChunksJson pages_info) of
        Inl e \<Rightarrow> (ProcessError doc_id (str_error e), fs1)
      | Inr fs2 \<Rightarrow>
     (case write_file env fs2 (metadata_path_of doc_id)
             (MetadataJson \<lparr>s_doc_id = doc_id,
                            s_original_file = basename file_path,
                            s_file_type = file_ext,
                            s_processing_time = strftime_now env,
                            s_chunks_count = length split_docs,
                            s_ocr_used = ocr_used\<rparr>) of
        Inl e \<Rightarrow> (ProcessError doc_id (str_error e), fs2)
      | Inr fs3 \<Rightarrow> (ProcessSuccess doc_id (length split_docs) file_ext ocr_used, fs3)))))"

text \<open>
  \<open>process_document\<close> returns its result dictionary and leaves the store as it stands
  when it returns; every exception of the body ends in the handler of line 173.
\<close>

definition process_document ::
  "services \<Rightarrow> filesystem \<Rightarrow> string \<Rightarrow> string \<Rightarrow> process_result \<times> filesystem" where
  "process_document env fs file_path doc_id =
     (case makedirs_error env ''processed'' of
        Some e \<Rightarrow> (ProcessError doc_id (str_error e), fs)
      | None \<Rightarrow>
     (let file_ext = lower (splitext_ext file_path) in
      case load_documents env file_path file_ext of
        Inl e \<Rightarrow> (ProcessError doc_id (str_error e), fs)
      | Inr (documents, ocr_used) \<Rightarrow>
          split_and_save env fs file_path doc_id file_ext documents ocr_used))"

section \<open>Chunk store and index: \<open>vector_db\<close>\<close>

text \<open>Matching a literal at the start of the text: the text after it, if it is there.\<close>

fun strip_prefix :: "string \<Rightarrow> string \<Rightarrow> string option" where
  "strip_prefix [] s = Some s"
| "strip_prefix (p # ps) [] = None"
| "strip_prefix (p # ps) (c # cs) = (if p = c then strip_prefix ps cs else None)"

text \<open>
  The pattern \<open>\n---\s*Document Chunk \d+\s*---\n\<close> matched at the start of the text:
  the text after the match. The character after each greedy run (\<open>D\<close>, \<open>-\<close>, a space or
  \<open>-\<close>) is outside the class of the run, so giving back characters never helps and the
  match, where there is one, takes each run whole.
\<close>

definition match_marker :: "string \<Rightarrow> string option" where
  "match_marker s =
     (case strip_prefix (NL # ''---'') s of
        None \<Rightarrow> None
      | Some s1 \<Rightarrow>
     (case strip_prefix ''Document Chunk '' (dropWhile is_space s1) of
        None \<Rightarrow> None
      | Some s2 \<Rightarrow>
          if takeWhile is_digit s2 = [] then None
          else strip_prefix (''---'' @ [NL]) (dropWhile is_space (dropWhile is_digit s2))))"

text \<open>
  \<open>re.split\<close> with that pattern: \<open>piece\<close> is the text since the last match. The scan
  goes left to right and resumes after each match.
\<close>

function re_split_marker :: "string \<Rightarrow> string \<Rightarrow> string list" where
  "re_split_marker piece [] = [piece]"
| "re_split_marker piece (c # cs) =
     (case match_marker (c # cs) of
        Some rest \<Rightarrow> piece # re_split_marker [] rest
      | None \<Rightarrow> re_split_marker (piece @ [c]) cs)"
  by pat_completeness auto
termination
proof (relation "measure (\<lambda>(piece, s). length s)")
  show "wf (measure (\<lambda>(piece, s). length s))"
    by simp
next
  fix piece :: string and c :: char and cs rest :: string
  assume m: "match_marker (c # cs) = Some rest"
  have sp: "strip_prefix p s = Some r \<Longrightarrow> length s = length p + length r" for p s r
    by (induction p s rule: strip_prefix.induct) (simp_all split: if_splits)
  have dw: "length (dropWhile P s) \<le> length s" for P and s :: string
    by (rule length_dropWhile_le)
  from m obtain s1 where s1: "strip_prefix (NL # ''---'') (c # cs) = Some s1"
    unfolding match_marker_def by (cases "strip_prefix (NL # ''---'') (c # cs)") simp_all
  from m s1 obtain s2 where
    s2: "strip_prefix ''Document Chunk '' (dropWhile is_space s1) = Some s2"
    unfolding match_marker_def
    by (cases "strip_prefix ''Document Chunk '' (dropWhile is_space s1)") simp_all
  from m s1 s2 have r:
    "strip_prefix (''---'' @ [NL]) (dropWhile is_space (dropWhile is_digit s2)) = Some rest"
    unfolding match_marker_def by (simp split: if_splits)
  have "length s1 < length (c # cs)"
    using sp[OF s1] by simp
  moreover have "length s2 \<le> length s1"
    using sp[OF s2] dw[of is_space s1] by simp
  moreover have "length rest \<le> length s2"
    using sp[OF r] dw[of is_space "dropWhile is_digit s2"] dw[of is_digit s2] by simp
  ultimately show "(([], rest), (piece, c # cs)) \<in> measure (\<lambda>(piece, s). length s)"
    by simp
next
  fix piece :: string and c :: char and cs :: string
  show "((piece @ [c], cs), (piece, c # cs)) \<in> measure (\<lambda>(piece, s). length s)"
    by simp
qed

declare re_split_marker.simps [simp del]

text \<open>The lookup table \<open>chunks_metadata\<close>: a later record with the same id replaces an earlier one.\<close>

definition build_chunks_metadata :: "metadata list \<Rightarrow> (nat \<Rightarrow> metadata option)" where
  "build_chunks_metadata chunks_info =
     fold (\<lambda>chunk tbl. case m_chunk_id chunk of
                          Some k \<Rightarrow> if k \<noteq> 0 then tbl(k \<mapsto> chunk) else tbl
                        | None \<Rightarrow> tbl) chunks_info Map.empty"

definition read_text :: "filesystem \<Rightarrow> string \<Rightarrow> error + string" where
  "read_text fs path =
     (case fs path of
        Some (TextFile s) \<Rightarrow> Inr (universal_newlines s)
      | Some _ \<Rightarrow> Inl (OSError path)
      | None \<Rightarrow> Inl (OSError path))"

definition json_load_chunks :: "filesystem \<Rightarrow> string \<Rightarrow> error + metadata list" where
  "json_load_chunks fs path =
     (case fs path of
        Some (ChunksJson chunks_info) \<Rightarrow> Inr chunks_info
      | Some _ \<Rightarrow> Inl (JSONDecodeError path)
      | None \<Rightarrow> Inl (OSError path))"

text \<open>The body of the loop of lines 57 to 79, for the chunk at index \<open>i\<close>.\<close>

definition make_chunk_document ::
  "(nat \<Rightarrow> metadata option) \<Rightarrow> string \<Rightarrow> nat \<Rightarrow> string \<Rightarrow> document" where
  "make_chunk_document chunks_metadata doc_id i text_chunk =
     (let chunk_id = i + 1;
          md = (case chunks_metadata chunk_id of
                  Some found \<Rightarrow> found
                | None \<Rightarrow> \<lparr>m_page = Some (PageStr ''Unknown''),
                            m_doc_id = Some doc_id,
                            m_chunk_id = Some chunk_id,
                            m_source = None,
                            m_citation = None\<rparr>);
          citation = ''Page '' @ str_page (case m_page md of Some p \<Rightarrow> p | None \<Rightarrow> PageStr ''Unknown'')
                       @ '', Chunk '' @ str_nat chunk_id
      in \<lparr>page_content = strip text_chunk, metadata = md\<lparr>m_citation := Some citation\<rparr>\<rparr>)"

text \<open>
  \<open>get_document_chunks\<close>: every exception of the body ends in \<open>return []\<close>. An omitted or
  empty \<open>chunks_path\<close> is replaced by the default path.
\<close>

definition get_document_chunks ::
  "filesystem \<Rightarrow> string \<Rightarrow> string \<Rightarrow> string option \<Rightarrow> document list" where
  "get_document_chunks fs content_path doc_id chunks_path_arg =
     (case read_text fs content_path of
        Inl e \<Rightarrow> []
      | Inr content \<Rightarrow>
     (let chunks_path = (case chunks_path_arg of
                           Some p \<Rightarrow> if p = [] then chunks_path_of doc_id else p
                         | None \<Rightarrow> chunks_path_of doc_id)
      in case (if fs chunks_path \<noteq> None then json_load_chunks fs chunks_path else Inr []) of
        Inl e \<Rightarrow> []
      | Inr chunks_info \<Rightarrow>
     (let chunks_metadata = build_chunks_metadata chunks_info;
          chunks = filter (\<lambda>chunk. strip chunk \<noteq> []) (re_split_marker [] content)
      in map (\<lambda>(i, text_chunk). make_chunk_document chunks_metadata doc_id i text_chunk)
           (enumerate 0 chunks))))"

definition create_document_vector_db :: "services \<Rightarrow> filesystem \<Rightarrow> string \<Rightarrow> vector_store option" where
  "create_document_vector_db env fs doc_id =
     (let docs = get_document_chunks fs (content_path_of doc_id) doc_id (Some (chunks_path_of doc_id))
      in if docs = [] then None
         else case FAISS_from_documents_error env docs of
                Some e \<Rightarrow> None
              | None \<Rightarrow> Some (FAISS docs))"

definition create_multi_document_vector_db ::
  "services \<Rightarrow> filesystem \<Rightarrow> string list \<Rightarrow> vector_store option" where
  "create_multi_document_vector_db env fs doc_ids =
     (let all_docs = concat (map (\<lambda>doc_id. get_document_chunks fs (content_path_of doc_id) doc_id None) doc_ids)
      in if all_docs = [] then None
         else case FAISS_from_documents_error env all_docs of
                Some e \<Rightarrow> None
              | None \<Rightarrow> Some (FAISS all_docs))"

definition query_vector_db :: "services \<Rightarrow> vector_store option \<Rightarrow> string \<Rightarrow> nat \<Rightarrow> document list" where
  "query_vector_db env vector_db query_text k =
     (case vector_db of
        None \<Rightarrow> []
      | Some (FAISS docs) \<Rightarrow>
          (case similarity_search env docs query_text k of
             Inr relevant_docs \<Rightarrow> relevant_docs
           | Inl e \<Rightarrow> []))"

section \<open>Single-document query engine: \<open>query_processor.query_document\<close>\<close>

record query_result =
  q_answer :: string
  q_citation :: string
  q_confidence :: real

text \<open>The loop of lines 91 to 95: citations not yet in the list are appended.\<close>

fun collect_citations :: "document list \<Rightarrow> string list \<Rightarrow> string list" where
  "collect_citations [] citations = citations"
| "collect_citations (doc # docs) citations =
     (let c = (case m_citation (metadata doc) of Some c \<Rightarrow> c | None \<Rightarrow> ''Citation not available'')
      in collect_citations docs (if c \<in> set citations then citations else citations @ [c]))"

definition context_section :: "document \<Rightarrow> string" where
  "context_section doc =
     ''Document section (from ''
       @ (case m_citation (metadata doc) of Some c \<Rightarrow> c | None \<Rightarrow> ''Unknown location'')
       @ ''):'' @ [NL] @ page_content doc"

text \<open>
  The body of the outer \<open>try\<close> (lines 35 to 123). \<open>Inl\<close> is an exception that leaves the
  body: the construction of the model client is outside the inner \<open>try\<close>, which guards
  \<open>chain.invoke\<close> alone. The parameter \<open>content_path\<close> is not read.
\<close>

definition query_document_body ::
  "services \<Rightarrow> filesystem \<Rightarrow> string \<Rightarrow> string \<Rightarrow> string \<Rightarrow> error + query_result" where
  "query_document_body env fs query content_path doc_id =
     (case create_document_vector_db env fs doc_id of
        None \<Rightarrow> Inr \<lparr>q_answer = ''Error: Could not process document '' @ doc_id,
                      q_citation = ''Error'', q_confidence = 0\<rparr>
      | Some doc_vector_db \<Rightarrow>
     (let relevant_docs = query_vector_db env (Some doc_vector_db) query 3 in
      if relevant_docs \<noteq> [] then
        (case ChatOpenAI_error env of
           Some e \<Rightarrow> Inl e
         | None \<Rightarrow>
        (let context = join [NL, NL] (map context_section relevant_docs) in
         case chain_invoke env context query of
           Inr response \<Rightarrow>
             Inr \<lparr>q_answer = response,
                  q_citation = join ''; '' (collect_citations relevant_docs []),
                  q_confidence = 0.95\<rparr>
         | Inl chain_error \<Rightarrow>
             (let context_simple = join [NL] (map page_content relevant_docs) in
              Inr \<lparr>q_answer = ''Found relevant information: '' @ take 500 context_simple @ ''...'',
                   q_citation = join ''; ''
                     (map (\<lambda>doc. case m_citation (metadata doc) of Some c \<Rightarrow> c | None \<Rightarrow> ''Unknown'')
                        relevant_docs),
                   q_confidence = 0.7\<rparr>)))
      else Inr \<lparr>q_answer = ''No relevant information found in this document.'',
                q_citation = ''N/A'', q_confidence = 0\<rparr>))"

text \<open>
  \<open>query_document\<close> with its handler of line 125. The result type keeps \<open>Inl\<close> for an
  exception that would reach the caller.
\<close>

definition query_document ::
  "services \<Rightarrow> filesystem \<Rightarrow> string \<Rightarrow> string \<Rightarrow> string \<Rightarrow> error + query_result" where
  "query_document env fs query content_path doc_id =
     (case query_document_body env fs query content_path doc_id of
        Inr result \<Rightarrow> Inr result
      | Inl e \<Rightarrow> Inr \<lparr>q_answer = ''Error processing query: '' @ str_error e,
                       q_citation = ''Error'', q_confidence = 0\<rparr>)"

section \<open>Theme synthesis engine: \<open>theme_processor\<close>\<close>

text \<open>One entry of \<open>document_results\<close>, as the caller builds it.\<close>

record doc_result =
  r_doc_id :: string
  r_filename :: string
  r_answer :: string
  r_citation :: string

record theme =
  t_name :: string
  t_description :: string
  t_supporting_documents :: "string list"
  t_citations :: "string list"

record themes_result =
  themes :: "theme list"
  synthesized_answer :: string

definition is_terminator :: "char \<Rightarrow> bool" where
  "is_terminator c = (c \<in> set ''.!?'')"

text \<open>
  The pattern \<open>(.*?[.!?])\<close> matched at the start of the text: the lazy \<open>.*?\<close> stops at
  the first terminator, and \<open>.\<close> does not match a line feed.
\<close>

fun match_sentence :: "string \<Rightarrow> string option" where
  "match_sentence [] = None"
| "match_sentence (c # cs) =
     (if is_terminator c then Some [c]
      else if c = NL then None
      else map_option ((#) c) (match_sentence cs))"

text \<open>\<open>re.search\<close> with that pattern: the match at the leftmost position that has one.\<close>

fun re_search_sentence :: "string \<Rightarrow> string option" where
  "re_search_sentence [] = None"
| "re_search_sentence (c # cs) =
     (case match_sentence (c # cs) of
        Some g \<Rightarrow> Some g
      | None \<Rightarrow> re_search_sentence cs)"

text \<open>The value of \<open>theme_name\<close> after lines 86 to 92.\<close>

definition theme_name :: "string \<Rightarrow> string" where
  "theme_name content =
     (case re_search_sentence content of
        Some g \<Rightarrow> if length g > 50 then take 47 g @ ''...'' else g
      | None \<Rightarrow> if length content > 50 then take 50 content @ ''...'' else content)"

text \<open>
  The loop of lines 79 to 100, from index \<open>i\<close> on. \<open>metadata['doc_id']\<close> and
  \<open>metadata['citation']\<close> raise \<open>KeyError\<close> on an absent key.
\<close>

fun create_themes :: "nat \<Rightarrow> document list \<Rightarrow> error + theme list" where
  "create_themes i [] = Inr []"
| "create_themes i (result # rest) =
     (case m_doc_id (metadata result) of
        None \<Rightarrow> Inl (KeyError ''doc_id'')
      | Some doc_id \<Rightarrow>
     (case m_citation (metadata result) of
        None \<Rightarrow> Inl (KeyError ''citation'')
      | Some citation \<Rightarrow>
     (case create_themes (i + 1) rest of
        Inl e \<Rightarrow> Inl e
      | Inr others \<Rightarrow>
          Inr (\<lparr>t_name = ''Theme '' @ str_nat (i + 1) @ '': '' @ theme_name (page_content result),
                t_description = page_content result,
                t_supporting_documents = [doc_id],
                t_citations = [citation]\<rparr> # others))))"

text \<open>One pass of the inner loop of lines 110 to 118.\<close>

definition expand_step :: "theme \<Rightarrow> document \<Rightarrow> error + theme" where
  "expand_step theme similar_doc =
     (case m_doc_id (metadata similar_doc) of
        None \<Rightarrow> Inl (KeyError ''doc_id'')
      | Some similar_doc_id \<Rightarrow>
     (case m_citation (metadata similar_doc) of
        None \<Rightarrow> Inl (KeyError ''citation'')
      | Some similar_citation \<Rightarrow>
          if similar_doc_id \<notin> set (t_supporting_documents theme)
          then Inr (theme\<lparr>t_supporting_documents := t_supporting_documents theme @ [similar_doc_id],
                          t_citations := t_citations theme @ [similar_citation]\<rparr>)
          else Inr theme))"

fun expand_theme :: "theme \<Rightarrow> document list \<Rightarrow> error + theme" where
  "expand_theme theme [] = Inr theme"
| "expand_theme theme (similar_doc # rest) =
     (case expand_step theme similar_doc of
        Inl e \<Rightarrow> Inl e
      | Inr theme' \<Rightarrow> expand_theme theme' rest)"

text \<open>The loop of lines 103 to 118; \<open>similar_results[1:]\<close> is \<open>drop 1\<close>.\<close>

fun expand_themes :: "services \<Rightarrow> vector_store \<Rightarrow> theme list \<Rightarrow> error + theme list" where
  "expand_themes env multi_doc_db [] = Inr []"
| "expand_themes env multi_doc_db (theme # rest) =
     (let similar_results = query_vector_db env (Some multi_doc_db) (t_description theme) 10 in
      case expand_theme theme (drop 1 similar_results) of
        Inl e \<Rightarrow> Inl e
      | Inr theme' \<Rightarrow>
          (case expand_themes env multi_doc_db rest of
             Inl e \<Rightarrow> Inl e
           | Inr others \<Rightarrow> Inr (theme' # others)))"

fun format_themes :: "nat \<Rightarrow> theme list \<Rightarrow> string" where
  "format_themes i [] = []"
| "format_themes i (theme # rest) =
     ''Theme '' @ str_nat (i + 1) @ '': '' @ t_name theme @ [NL]
       @ ''Description: '' @ t_description theme @ [NL]
       @ ''Citations: '' @ join '', '' (t_citations theme) @ [NL, NL]
       @ format_themes (i + 1) rest"

definition fallback_synthesis :: "nat \<Rightarrow> nat \<Rightarrow> string \<Rightarrow> string" where
  "fallback_synthesis n_themes n_docs query =
     ''Analysis of '' @ str_nat n_themes @ '' themes found across '' @ str_nat n_docs
       @ '' documents for query: '' @ [CHR 0x27] @ query @ [CHR 0x27]"

text \<open>
  The themes of the multi-document path (lines 55 to 118), shared by the function and by
  the method of \<open>ModernThemeProcessor\<close>, whose loops are the same. \<open>Inr None\<close> is the
  early return for a missing index. The table \<open>doc_info_map\<close> of lines 70 to 75 is
  built and never read.
\<close>

definition build_themes ::
  "services \<Rightarrow> filesystem \<Rightarrow> string \<Rightarrow> string list \<Rightarrow> nat \<Rightarrow> error + theme list option" where
  "build_themes env fs query doc_ids top_n =
     (case create_multi_document_vector_db env fs doc_ids of
        None \<Rightarrow> Inr None
      | Some multi_doc_db \<Rightarrow>
     (let top_results = query_vector_db env (Some multi_doc_db) query top_n in
      case create_themes 0 top_results of
        Inl e \<Rightarrow> Inl e
      | Inr themes0 \<Rightarrow>
          (case expand_themes env multi_doc_db themes0 of
             Inl e \<Rightarrow> Inl e
           | Inr themes1 \<Rightarrow> Inr (Some themes1))))"

definition single_document_result :: "doc_result \<Rightarrow> themes_result" where
  "single_document_result r =
     \<lparr>themes = [\<lparr>t_name = ''Single Document Analysis'',
                  t_description = r_answer r,
                  t_supporting_documents = [r_doc_id r],
                  t_citations = [r_citation r]\<rparr>],
      synthesized_answer = r_answer r\<rparr>"

text \<open>\<open>identify_themes\<close> has no handler of its own: \<open>Inl\<close> reaches the caller.\<close>

definition identify_themes ::
  "services \<Rightarrow> filesystem \<Rightarrow> string \<Rightarrow> doc_result list \<Rightarrow> nat \<Rightarrow> error + themes_result" where
  "identify_themes env fs query document_results top_n =
     (case document_results of
        [] \<Rightarrow> Inr \<lparr>themes = [], synthesized_answer = ''No documents were processed for this query.''\<rparr>
      | [r] \<Rightarrow> Inr (single_document_result r)
      | _ \<Rightarrow>
     (let doc_ids = map r_doc_id document_results in
      case build_themes env fs query doc_ids top_n of
        Inl e \<Rightarrow> Inl e
      | Inr None \<Rightarrow>
          Inr \<lparr>themes = [],
               synthesized_answer = ''Error: Could not create vector database for theme identification.''\<rparr>
      | Inr (Some themes1) \<Rightarrow>
          (case ChatOpenAI_error env of
             Some e \<Rightarrow> Inl e
           | None \<Rightarrow>
               Inr \<lparr>themes = themes1,
                    synthesized_answer =
                      (case synthesis_invoke env query (format_themes 0 themes1) of
                         Inr (ResponseDict (Some t) s) \<Rightarrow> t
                       | Inr (ResponseDict None s) \<Rightarrow> s
                       | Inr (ResponseOther s) \<Rightarrow> s
                       | Inl e \<Rightarrow> fallback_synthesis (length themes1) (length doc_ids) query)\<rparr>)))"

text \<open>
  \<open>identify_themes_with_modern_processor\<close>: the model client is constructed first, by
  the constructor of the class.
\<close>

definition identify_themes_modern ::
  "services \<Rightarrow> filesystem \<Rightarrow> string \<Rightarrow> doc_result list \<Rightarrow> nat \<Rightarrow> error + themes_result" where
  "identify_themes_modern env fs query document_results top_n =
     (case ChatOpenAI_error env of
        Some e \<Rightarrow> Inl e
      | None \<Rightarrow>
     (case document_results of
        [] \<Rightarrow> Inr \<lparr>themes = [], synthesized_answer = ''No documents were processed for this query.''\<rparr>
      | [r] \<Rightarrow> Inr (single_document_result r)
      | _ \<Rightarrow>
     (let doc_ids = map r_doc_id document_results in
      case build_themes env fs query doc_ids top_n of
        Inl e \<Rightarrow> Inl e
      | Inr None \<Rightarrow>
          Inr \<lparr>themes = [],
               synthesized_answer = ''Error: Could not create vector database for theme identification.''\<rparr>
      | Inr (Some themes1) \<Rightarrow>
          Inr \<lparr>themes = themes1,
               synthesized_answer =
                 (case modern_synthesis_invoke env query (format_themes 0 themes1) of
                    Inr synthesis_response \<Rightarrow> synthesis_response
                  | Inl e \<Rightarrow> fallback_synthesis (length themes1) (length doc_ids) query)\<rparr>)))"

text \<open>
  The invariant of a theme under construction, over the chunks seen so far: the two lists
  have one length, no document id occurs twice, and the entries at each index are the
  document id and the citation of one of those chunks.
\<close>

definition from_chunk :: "document list \<Rightarrow> string \<times> string \<Rightarrow> bool" where
  "from_chunk chunks p =
     list_ex (\<lambda>chunk. m_doc_id (metadata chunk) = Some (fst p)
                     \<and> m_citation (metadata chunk) = Some (snd p)) chunks"

definition co_indexed :: "document list \<Rightarrow> theme \<Rightarrow> bool" where
  "co_indexed chunks theme =
     (length (t_supporting_documents theme) = length (t_citations theme)
      \<and> distinct (t_supporting_documents theme)
      \<and> list_all (from_chunk chunks) (zip (t_supporting_documents theme) (t_citations theme)))"

section \<open>Example inputs\<close>

text \<open>
  Collaborators that never fail: the splitter returns the documents as they are, the
  index returns its first \<open>k\<close> entries, and the store holds a document \<open>d1\<close> of two
  chunks and a document \<open>d2\<close> of one chunk, which has no sidecar file.
\<close>

definition example_services :: services where
  "example_services =
     \<lparr>makedirs_error = (\<lambda>path. None),
      open_write_error = (\<lambda>path. None),
      strftime_now = ''2025-01-01 00:00:00'',
      PyPDFLoader_load = (\<lambda>path. Inr []),
      UnstructuredPDFLoader_load = (\<lambda>n path. Inr []),
      UnstructuredImageLoader_load = (\<lambda>path. Inr []),
      split_documents = (\<lambda>documents. Inr documents),
      FAISS_from_documents_error = (\<lambda>docs. None),
      similarity_search = (\<lambda>docs query_text k. Inr (take k docs)),
      ChatOpenAI_error = None,
      chain_invoke = (\<lambda>context query. Inr ''An answer.''),
      synthesis_invoke = (\<lambda>query themes_text. Inr (ResponseDict (Some ''A synthesis.'') ''{}'')),
      modern_synthesis_invoke = (\<lambda>query themes_text. Inr ''A synthesis.'')\<rparr>"

definition example_fs :: filesystem where
  "example_fs =
     [''processed/d1_content.txt'' \<mapsto>
        TextFile (chunk_marker 1 @ ''Alpha.'' @ [NL] @ chunk_marker 2 @ ''Beta.'' @ [NL]),
      ''processed/d1_chunks.json'' \<mapsto>
        ChunksJson [\<lparr>m_page = Some (PageInt 1), m_doc_id = Some ''d1'', m_chunk_id = Some 1,
                      m_source = Some ''a.pdf'', m_citation = None\<rparr>,
                    \<lparr>m_page = Some (PageInt 1), m_doc_id = Some ''d1'', m_chunk_id = Some 2,
                      m_source = Some ''a.pdf'', m_citation = None\<rparr>],
      ''processed/d2_content.txt'' \<mapsto>
        TextFile (chunk_marker 1 @ ''Gamma!'' @ [NL])]"

text \<open>The language model is down: every call of the chain raises.\<close>

definition generation_down :: services where
  "generation_down =
     example_services\<lparr>chain_invoke := (\<lambda>context query. Inl (ServiceError ''timeout''))\<rparr>"

text \<open>The model client cannot be constructed: \<open>ChatOpenAI(...)\<close> raises.\<close>

definition client_down :: services where
  "client_down =
     example_services\<lparr>ChatOpenAI_error := Some (ValueError ''api_key must be set'')\<rparr>"

text \<open>
  The entries of \<open>document_results\<close> for the two stored documents, their chunks as the
  multi-document index holds them, and the theme of the chunk \<open>Alpha.\<close> with given lists.
\<close>

definition example_results :: "doc_result list" where
  "example_results =
     [\<lparr>r_doc_id = ''d1'', r_filename = ''a.pdf'', r_answer = ''One.'', r_citation = ''Page 1, Chunk 1''\<rparr>,
      \<lparr>r_doc_id = ''d2'', r_filename = ''b.pdf'', r_answer = ''Two.'', r_citation = ''Page Unknown, Chunk 1''\<rparr>]"

definition example_chunks :: "document list" where
  "example_chunks =
     get_document_chunks example_fs (content_path_of ''d1'') ''d1'' None
       @ get_document_chunks example_fs (content_path_of ''d2'') ''d2'' None"

definition alpha_theme :: "string list \<Rightarrow> string list \<Rightarrow> theme" where
  "alpha_theme docs cites =
     \<lparr>t_name = ''Theme 1: Alpha.'', t_description = ''Alpha.'',
      t_supporting_documents = docs, t_citations = cites\<rparr>"



text \<open>
  The prefix of a text up to and including its first sentence terminator (the whole text
  when it has none).
\<close>

definition first_sentence_prefix :: "string \<Rightarrow> string" where
  "first_sentence_prefix content =
     take (Suc (length (takeWhile (\<lambda>c. \<not> is_terminator c) content))) content"

text \<open>
  A store whose document \<open>d1\<close> is one chunk of 51 letters without a terminator and
  whose document \<open>d2\<close> is one chunk of two lines, the terminator on the second.
\<close>

definition unbroken_text :: string where
  "unbroken_text = replicate 51 (CHR ''a'')"

definition two_line_text :: string where
  "two_line_text = ''Title'' @ [NL] @ ''Body.''"

definition naming_fs :: filesystem where
  "naming_fs =
     [''processed/d1_content.txt'' \<mapsto> TextFile (chunk_marker 1 @ unbroken_text @ [NL]),
      ''processed/d2_content.txt'' \<mapsto> TextFile (chunk_marker 1 @ two_line_text @ [NL])]"

text \<open>
  Loader results: a page of a text PDF, as \<open>PyPDFLoader\<close> returns it (with its page
  number), and an element of the OCR loader, which has no \<open>page\<close> key. A scanned PDF
  gives one blank page to the fast loader and its text to the OCR loader; \<open>ocr_down\<close>
  is the same upload on a host where every OCR run raises; \<open>text_pdf\<close> is a PDF whose
  one page has 100 characters.
\<close>

definition page_doc :: "int \<Rightarrow> string \<Rightarrow> document" where
  "page_doc n content =
     \<lparr>page_content = content,
      metadata = \<lparr>m_page = Some (PageInt n), m_doc_id = None, m_chunk_id = None,
                  m_source = Some ''uploads/scan.pdf'', m_citation = None\<rparr>\<rparr>"

definition element_doc :: "string \<Rightarrow> document" where
  "element_doc content =
     \<lparr>page_content = content,
      metadata = \<lparr>m_page = None, m_doc_id = None, m_chunk_id = None,
                  m_source = Some ''uploads/scan.pdf'', m_citation = None\<rparr>\<rparr>"

definition scanned_pdf :: services where
  "scanned_pdf =
     example_services\<lparr>PyPDFLoader_load := (\<lambda>path. Inr [page_doc 0 '' '']),
                       UnstructuredPDFLoader_load := (\<lambda>n path. Inr [element_doc ''Scanned text.''])\<rparr>"

definition ocr_down :: services where
  "ocr_down =
     scanned_pdf\<lparr>UnstructuredPDFLoader_load :=
                    (\<lambda>n path. Inl (OSError ''tesseract is not installed''))\<rparr>"

definition text_pdf :: services where
  "text_pdf =
     example_services\<lparr>PyPDFLoader_load := (\<lambda>path. Inr [page_doc 0 (replicate 100 (CHR ''a''))])\<rparr>"


text \<open>
  A text is free of the delimiter when the pattern of \<open>get_document_chunks\<close> matches at
  none of its positions. \<open>delimited i cs\<close> is what the loop of \<open>process_document\<close>
  appends to \<open>full_text\<close> for the chunk texts \<open>cs\<close>, from index \<open>i\<close> on. A chunk text
  survives the round trip when it is not empty, has no white space at either end, has
  no carriage return, and, with the line feed written after it, is free of the delimiter.
\<close>

definition marker_free :: "string \<Rightarrow> bool" where
  "marker_free s = list_all (\<lambda>t. match_marker t = None) (suffixes s)"

fun delimited :: "nat \<Rightarrow> string list \<Rightarrow> string" where
  "delimited i [] = []"
| "delimited i (c # cs) = chunk_marker (i + 1) @ c @ [NL] @ delimited (i + 1) cs"

definition round_trip_text :: "string \<Rightarrow> bool" where
  "round_trip_text c = (c \<noteq> [] \<and> strip c = c \<and> CR \<notin> set c \<and> marker_free (c @ [NL]))"

text \<open>
  A PDF whose page has a line that reads like a chunk delimiter, a PDF whose page has a
  carriage return, and a list of chunks with white space around a text and an empty text.
\<close>

definition marker_pdf :: services where
  "marker_pdf =
     example_services\<lparr>PyPDFLoader_load :=
       (\<lambda>path. Inr [page_doc 0 (replicate 100 (CHR ''a'') @ [NL] @ ''--- Document Chunk 7 ---''
                                  @ [NL] @ ''Outro'')])\<rparr>"

definition cr_pdf :: services where
  "cr_pdf =
     example_services\<lparr>PyPDFLoader_load :=
       (\<lambda>path. Inr [page_doc 0 (replicate 100 (CHR ''a'') @ [CR] @ ''b'')])\<rparr>"

definition padded_chunks :: "document list" where
  "padded_chunks = [page_doc 0 '' Alpha '', page_doc 0 [], page_doc 1 ''Beta'']"



section \<open>Single-document query engine: results\<close>

text \<open>
  Claim C10. \<open>query_document\<close> always returns a result dictionary, whatever the
  collaborators do: no exception reaches the caller. Its confidence is 0, 0.7 or 0.95,
  hence within [0, 1]. It is 0.95 exactly when chunks were retrieved, the model client
  was constructed and the chain returned an answer; 0.7 exactly when chunks were
  retrieved, the client was constructed and the chain raised; and 0 exactly when nothing
  was retrieved (no index or no hit) or the construction of the client raised.
\<close>

theorem query_document_never_raises:
  "\<exists>r. query_document env fs query content_path doc_id = Inr r
     \<and> q_confidence r \<in> {0, 0.7, 0.95}
     \<and> 0 \<le> q_confidence r \<and> q_confidence r \<le> 1
     \<and> (let relevant_docs = query_vector_db env (create_document_vector_db env fs doc_id) query 3;
             context = join [NL, NL] (map context_section relevant_docs)
         in (q_confidence r = 0.95 \<longleftrightarrow>
               relevant_docs \<noteq> [] \<and> ChatOpenAI_error env = None
               \<and> (\<exists>response. chain_invoke env context query = Inr response))
          \<and> (q_confidence r = 0.7 \<longleftrightarrow>
               relevant_docs \<noteq> [] \<and> ChatOpenAI_error env = None
               \<and> (\<exists>chain_error. chain_invoke env context query = Inl chain_error))
          \<and> (q_confidence r = 0 \<longleftrightarrow>
               relevant_docs = [] \<or> ChatOpenAI_error env \<noteq> None))"
proof (cases "create_document_vector_db env fs doc_id")
  case None
  then show ?thesis
    by (simp add: query_document_def query_document_body_def query_vector_db_def)
next
  case (Some db)
  note db = this
  show ?thesis
  proof (cases "query_vector_db env (Some db) query 3 = []")
    case True
    with db show ?thesis
      by (simp add: query_document_def query_document_body_def)
  next
    case False
    note hits = this
    show ?thesis
    proof (cases "ChatOpenAI_error env")
      case (Some e)
      with hits db show ?thesis
        by (simp add: query_document_def query_document_body_def)
    next
      case None
      note client = this
      show ?thesis
      proof (cases "chain_invoke env
          (join [NL, NL] (map context_section (query_vector_db env (Some db) query 3))) query")
        case (Inl chain_error)
        with client hits db show ?thesis
          by (simp add: query_document_def query_document_body_def Let_def)
      next
        case (Inr response)
        with client hits db show ?thesis
          by (simp add: query_document_def query_document_body_def Let_def)
      qed
    qed
  qed
qed

theorem query_document_never_raises_witness:
  "\<exists>r. query_document example_services example_fs ''q'' ''p'' ''d1'' = Inr r
     \<and> q_confidence r = 0.95"
proof -
  have hits: "query_vector_db example_services
                (create_document_vector_db example_services example_fs ''d1'') ''q'' 3 \<noteq> []"
    by code_simp
  have client: "ChatOpenAI_error example_services = None"
    by (simp add: example_services_def)
  have chain: "\<exists>response. chain_invoke example_services c ''q'' = Inr response" for c
    by (simp add: example_services_def)
  from query_document_never_raises [of example_services example_fs "''q''" "''p''" "''d1''"]
  show ?thesis
    using hits client chain by (auto simp: Let_def)
qed

text \<open>
  The inner handler of lines 107 to 115. When chunks were retrieved, the model client was
  constructed and \<open>chain.invoke\<close> raises, the answer is the fixed lead-in, the first 500
  characters of the retrieved texts joined by line feeds, and an ellipsis; the confidence
  is 0.7, below the 0.95 of a generated answer.
\<close>

lemma chain_failure_falls_back:
  assumes "relevant_docs = query_vector_db env (create_document_vector_db env fs doc_id) query 3"
    and "relevant_docs \<noteq> []"
    and "ChatOpenAI_error env = None"
    and "chain_invoke env (join [NL, NL] (map context_section relevant_docs)) query = Inl chain_error"
  shows "\<exists>r. query_document env fs query content_path doc_id = Inr r
           \<and> q_answer r = ''Found relevant information: ''
                 @ take 500 (join [NL] (map page_content relevant_docs)) @ ''...''
           \<and> q_answer r \<noteq> ''Error processing query: '' @ str_error chain_error
           \<and> q_confidence r = 0.7 \<and> q_confidence r < 0.95"
proof (cases "create_document_vector_db env fs doc_id")
  case None
  with assms(1,2) show ?thesis
    by (simp add: query_vector_db_def)
next
  case (Some db)
  with assms show ?thesis
    by (simp add: query_document_def query_document_body_def Let_def)
qed

text \<open>
  Claim C6. The model client is constructed on line 53, after the retrieval and outside
  the inner \<open>try\<close> of line 86, which guards \<open>chain.invoke\<close> alone. With the chunks
  \<open>Alpha.\<close> and \<open>Beta.\<close> retrieved and the constructor raising, the query returns the
  error result of the outer handler, with citation \<open>Error\<close> and confidence 0; with the
  same retrieval and \<open>chain.invoke\<close> raising, it returns the excerpt.
\<close>

theorem client_failure_voids_retrieval:
  "map page_content
     (query_vector_db client_down (create_document_vector_db client_down example_fs ''d1'') ''q'' 3)
     = [''Alpha.'', ''Beta.'']
   \<and> map_sum id q_answer (query_document client_down example_fs ''q'' ''p'' ''d1'')
     = Inr ''Error processing query: api_key must be set''
   \<and> map_sum id q_citation (query_document client_down example_fs ''q'' ''p'' ''d1'')
     = Inr ''Error''
   \<and> map_sum id q_confidence (query_document client_down example_fs ''q'' ''p'' ''d1'')
     = Inr 0
   \<and> map_sum id q_answer (query_document generation_down example_fs ''q'' ''p'' ''d1'')
     = Inr (''Found relevant information: Alpha.'' @ [NL] @ ''Beta....'')"
  by code_simp

section \<open>Theme synthesis engine: results\<close>

lemma from_chunk_mono: "set cs \<subseteq> set cs' \<Longrightarrow> from_chunk cs p \<Longrightarrow> from_chunk cs' p"
  by (auto simp: from_chunk_def list_ex_iff)

lemma co_indexed_mono: "set cs \<subseteq> set cs' \<Longrightarrow> co_indexed cs t \<Longrightarrow> co_indexed cs' t"
  by (auto simp: co_indexed_def list_all_iff intro: from_chunk_mono)

lemma create_themes_co_indexed:
  "create_themes i rs = Inr ts \<Longrightarrow> t \<in> set ts \<Longrightarrow> co_indexed rs t"
proof (induction rs arbitrary: i ts)
  case Nil
  then show ?case by simp
next
  case (Cons r rs)
  from Cons.prems(1) obtain d c others where
    d: "m_doc_id (metadata r) = Some d" and c: "m_citation (metadata r) = Some c"
    and rest: "create_themes (i + 1) rs = Inr others"
    and ts: "ts = \<lparr>t_name = ''Theme '' @ str_nat (i + 1) @ '': '' @ theme_name (page_content r),
                   t_description = page_content r,
                   t_supporting_documents = [d], t_citations = [c]\<rparr> # others"
    by (auto split: option.splits sum.splits)
  show ?case
  proof (cases "t \<in> set others")
    case True
    with Cons.IH[OF rest] have "co_indexed rs t" by simp
    then show ?thesis by (rule co_indexed_mono[rotated]) auto
  next
    case False
    with Cons.prems(2) ts d c show ?thesis
      by (auto simp: co_indexed_def from_chunk_def)
  qed
qed

lemma expand_step_co_indexed:
  assumes "co_indexed cs t" and "expand_step t d = Inr t'"
  shows "co_indexed (cs @ [d]) t'"
proof -
  from assms(2) obtain x c where x: "m_doc_id (metadata d) = Some x"
    and c: "m_citation (metadata d) = Some c"
    and t': "t' = (if x \<notin> set (t_supporting_documents t)
                   then t\<lparr>t_supporting_documents := t_supporting_documents t @ [x],
                          t_citations := t_citations t @ [c]\<rparr> else t)"
    by (auto simp: expand_step_def split: option.splits if_splits)
  have old: "co_indexed (cs @ [d]) t"
    using assms(1) by (rule co_indexed_mono[rotated]) auto
  show ?thesis
  proof (cases "x \<in> set (t_supporting_documents t)")
    case True
    with t' old show ?thesis by simp
  next
    case False
    with t' old x c show ?thesis
      by (auto simp: co_indexed_def from_chunk_def)
  qed
qed

lemma expand_theme_co_indexed:
  "co_indexed cs t \<Longrightarrow> expand_theme t ds = Inr t' \<Longrightarrow> co_indexed (cs @ ds) t'"
proof (induction ds arbitrary: cs t)
  case Nil
  then show ?case by simp
next
  case (Cons d ds)
  from Cons.prems(2) obtain t1 where s: "expand_step t d = Inr t1"
    and r: "expand_theme t1 ds = Inr t'"
    by (auto split: sum.splits)
  from Cons.IH[OF expand_step_co_indexed[OF Cons.prems(1) s] r] show ?case by simp
qed

lemma expand_step_keeps:
  "expand_step t d = Inr t' \<Longrightarrow> m_doc_id (metadata d) = Some x
     \<Longrightarrow> x \<in> set (t_supporting_documents t) \<Longrightarrow> t' = t"
  by (auto simp: expand_step_def split: option.splits if_splits)

lemma expand_themes_co_indexed:
  "expand_themes env db ts = Inr ts' \<Longrightarrow> \<forall>t \<in> set ts. \<exists>cs. co_indexed cs t
     \<Longrightarrow> t' \<in> set ts' \<Longrightarrow> \<exists>cs. co_indexed cs t'"
proof (induction ts arbitrary: ts')
  case Nil
  then show ?case by simp
next
  case (Cons t ts)
  from Cons.prems(1) obtain t1 others where
    e: "expand_theme t (drop 1 (query_vector_db env (Some db) (t_description t) 10)) = Inr t1"
    and r: "expand_themes env db ts = Inr others" and ts': "ts' = t1 # others"
    by (auto simp: Let_def split: sum.splits)
  show ?case
  proof (cases "t' = t1")
    case True
    from Cons.prems(2) obtain cs where "co_indexed cs t" by auto
    from expand_theme_co_indexed[OF this e] True show ?thesis by blast
  next
    case False
    with ts' Cons.prems(3) have "t' \<in> set others" by simp
    with Cons.IH[OF r] Cons.prems(2) show ?thesis by simp
  qed
qed

lemma co_indexed_aligned:
  "co_indexed cs t \<Longrightarrow>
     length (t_supporting_documents t) = length (t_citations t) \<and> distinct (t_supporting_documents t)"
  by (simp add: co_indexed_def)

lemma build_themes_co_indexed:
  assumes "build_themes env fs query doc_ids top_n = Inr (Some ts)" and "t \<in> set ts"
  shows "\<exists>cs. co_indexed cs t"
proof -
  from assms(1) obtain db ts0 where
    c: "create_themes 0 (query_vector_db env (Some db) query top_n) = Inr ts0"
    and e: "expand_themes env db ts0 = Inr ts"
    by (auto simp: build_themes_def Let_def split: option.splits sum.splits)
  from create_themes_co_indexed[OF c] have "\<forall>t \<in> set ts0. \<exists>cs. co_indexed cs t"
    by blast
  from expand_themes_co_indexed[OF e this assms(2)] show ?thesis .
qed

lemma identify_themes_cases:
  assumes "identify_themes env fs query document_results top_n = Inr res
           \<or> identify_themes_modern env fs query document_results top_n = Inr res"
  shows "themes res = []
         \<or> (\<exists>r. themes res = themes (single_document_result r))
         \<or> (\<exists>doc_ids. build_themes env fs query doc_ids top_n = Inr (Some (themes res)))"
proof (cases document_results)
  case Nil
  with assms show ?thesis
    by (auto simp: identify_themes_def identify_themes_modern_def split: option.splits)
next
  case (Cons r rs)
  note outer = this
  show ?thesis
  proof (cases rs)
    case Nil
    with outer assms show ?thesis
      by (auto simp: identify_themes_def identify_themes_modern_def split: option.splits)
  next
    case (Cons r' rs')
    with outer assms show ?thesis
      by (auto simp: identify_themes_def identify_themes_modern_def Let_def
               split: option.splits sum.splits)
  qed
qed

text \<open>
  Claim C9. A theme made from a retrieved chunk satisfies the invariant at its creation
  and after any number \<open>n\<close> of passes of the expansion loop: the supporting-document
  list and the citation list have one length, entry by entry they are the document id
  and the citation of one chunk, and no document id occurs twice. A pass whose chunk
  belongs to a document already listed leaves the theme as it is. Every theme returned
  by \<open>identify_themes\<close> or by the method of \<open>ModernThemeProcessor\<close> has lists of one
  length without a repeated document id.
\<close>

theorem theme_lists_stay_co_indexed:
  "(create_themes i top_results = Inr themes0 \<and> theme \<in> set themes0
      \<and> expand_theme theme (take n similar) = Inr theme'
      \<longrightarrow> co_indexed top_results theme \<and> co_indexed (top_results @ similar) theme')
   \<and> (expand_step theme1 similar_doc = Inr theme2
      \<and> m_doc_id (metadata similar_doc) = Some similar_doc_id
      \<and> similar_doc_id \<in> set (t_supporting_documents theme1)
      \<longrightarrow> theme2 = theme1)
   \<and> ((identify_themes env fs query document_results top_n = Inr res
        \<or> identify_themes_modern env fs query document_results top_n = Inr res)
      \<and> t \<in> set (themes res)
      \<longrightarrow> length (t_supporting_documents t) = length (t_citations t)
          \<and> distinct (t_supporting_documents t))"
proof (intro conjI impI)
  assume a: "create_themes i top_results = Inr themes0 \<and> theme \<in> set themes0
      \<and> expand_theme theme (take n similar) = Inr theme'"
  then show c0: "co_indexed top_results theme"
    using create_themes_co_indexed by blast
  from expand_theme_co_indexed[OF c0] a have "co_indexed (top_results @ take n similar) theme'"
    by blast
  then show "co_indexed (top_results @ similar) theme'"
    by (rule co_indexed_mono[rotated]) (auto dest: in_set_takeD)
next
  assume "expand_step theme1 similar_doc = Inr theme2
      \<and> m_doc_id (metadata similar_doc) = Some similar_doc_id
      \<and> similar_doc_id \<in> set (t_supporting_documents theme1)"
  then show "theme2 = theme1"
    using expand_step_keeps by blast
next
  assume a: "(identify_themes env fs query document_results top_n = Inr res
        \<or> identify_themes_modern env fs query document_results top_n = Inr res)
      \<and> t \<in> set (themes res)"
  then have "\<exists>cs. co_indexed cs t \<or> (\<exists>r. themes res = themes (single_document_result r))"
    using identify_themes_cases[of env fs query document_results top_n res]
          build_themes_co_indexed[of env fs query _ top_n "themes res" t]
    by auto
  with a have "length (t_supporting_documents t) = length (t_citations t)
      \<and> distinct (t_supporting_documents t)"
    by (auto simp: single_document_result_def dest: co_indexed_aligned)
  then show "length (t_supporting_documents t) = length (t_citations t)"
    and "distinct (t_supporting_documents t)" by simp_all
qed

theorem theme_lists_stay_co_indexed_witness:
  "co_indexed example_chunks (alpha_theme [''d1''] [''Page 1, Chunk 1''])
   \<and> co_indexed (example_chunks @ drop 1 example_chunks)
        (alpha_theme [''d1'', ''d2''] [''Page 1, Chunk 1'', ''Page Unknown, Chunk 1''])
   \<and> expand_step (alpha_theme [''d1''] [''Page 1, Chunk 1'']) (example_chunks ! 1)
        = Inr (alpha_theme [''d1''] [''Page 1, Chunk 1''])
   \<and> (\<exists>res. identify_themes example_services example_fs ''q'' example_results 5 = Inr res
         \<and> alpha_theme [''d1'', ''d2''] [''Page 1, Chunk 1'', ''Page Unknown, Chunk 1'']
             \<in> set (themes res))"
proof -
  let ?t0 = "alpha_theme [''d1''] [''Page 1, Chunk 1'']"
  let ?t1 = "alpha_theme [''d1'', ''d2''] [''Page 1, Chunk 1'', ''Page Unknown, Chunk 1'']"
  let ?res = "\<lparr>themes = [?t1,
      \<lparr>t_name = ''Theme 2: Beta.'', t_description = ''Beta.'',
         t_supporting_documents = [''d1'', ''d2''],
         t_citations = [''Page 1, Chunk 2'', ''Page Unknown, Chunk 1'']\<rparr>,
      \<lparr>t_name = ''Theme 3: Gamma!'', t_description = ''Gamma!'',
         t_supporting_documents = [''d2'', ''d1''],
         t_citations = [''Page Unknown, Chunk 1'', ''Page 1, Chunk 2'']\<rparr>],
      synthesized_answer = ''A synthesis.''\<rparr>"
  let ?others = "[\<lparr>t_name = ''Theme 2: Beta.'', t_description = ''Beta.'',
         t_supporting_documents = [''d1''], t_citations = [''Page 1, Chunk 2'']\<rparr>,
      \<lparr>t_name = ''Theme 3: Gamma!'', t_description = ''Gamma!'',
         t_supporting_documents = [''d2''], t_citations = [''Page Unknown, Chunk 1'']\<rparr>]"
  have c: "create_themes 0 example_chunks = Inr (?t0 # ?others)"
    by code_simp
  have expanded: "expand_theme ?t0 (take 2 (drop 1 example_chunks)) = Inr ?t1"
    by code_simp
  have step: "expand_step ?t0 (example_chunks ! 1) = Inr ?t0"
    by code_simp
  have doc: "m_doc_id (metadata (example_chunks ! 1)) = Some ''d1''"
    by code_simp
  have run: "identify_themes example_services example_fs ''q'' example_results 5 = Inr ?res"
    by code_simp
  from theme_lists_stay_co_indexed
         [where i = 0 and top_results = example_chunks and ?themes0.0 = "?t0 # ?others"
            and theme = ?t0 and n = 2 and similar = "drop 1 example_chunks" and theme' = ?t1
            and ?theme1.0 = ?t0 and similar_doc = "example_chunks ! 1" and ?theme2.0 = ?t0
            and similar_doc_id = "''d1''"
            and env = example_services and fs = example_fs and query = "''q''"
            and document_results = example_results and top_n = 5 and res = ?res and t = ?t1]
  show ?thesis
    using c expanded step doc run by (simp add: alpha_theme_def)
qed

section \<open>Chunk store: results\<close>

lemma strip_prefix_mem:
  "strip_prefix p s = Some r \<Longrightarrow> set p \<subseteq> set s"
  by (induction p s rule: strip_prefix.induct) (auto split: if_splits)

lemma match_marker_blank: "list_all is_space s \<Longrightarrow> match_marker s = None"
proof (cases "strip_prefix (NL # ''---'') s")
  case None
  then show ?thesis by (simp add: match_marker_def)
next
  case (Some r)
  assume "list_all is_space s"
  moreover from strip_prefix_mem[OF Some] have "CHR ''-'' \<in> set s" by simp
  ultimately have "is_space (CHR ''-'')" by (simp add: list_all_iff)
  then show ?thesis by (simp add: is_space_def)
qed

lemma re_split_marker_blank:
  "list_all is_space s \<Longrightarrow> re_split_marker piece s = [piece @ s]"
proof (induction s arbitrary: piece)
  case Nil
  then show ?case by (simp add: re_split_marker.simps)
next
  case (Cons c cs)
  from match_marker_blank[OF Cons.prems] have "match_marker (c # cs) = None" .
  moreover from Cons.prems have "list_all is_space cs" by simp
  ultimately show ?case using Cons.IH[of "piece @ [c]"]
    by (simp add: re_split_marker.simps)
qed

lemma universal_newlines_set: "set (universal_newlines s) \<subseteq> insert NL (set s)"
  by (induction s rule: universal_newlines.induct) auto

lemma universal_newlines_blank:
  assumes "list_all is_space s"
  shows "list_all is_space (universal_newlines s)"
proof -
  have "is_space NL" by (simp add: is_space_def)
  with assms universal_newlines_set[of s] show ?thesis
    by (auto simp: list_all_iff)
qed

lemma strip_blank:
  assumes "list_all is_space s"
  shows "strip s = []"
proof -
  from assms have d: "dropWhile is_space s = []"
    by (induction s) simp_all
  show ?thesis unfolding strip_def d by simp
qed

lemma get_document_chunks_blank:
  assumes "fs content_path = None
           \<or> (\<exists>s. fs content_path = Some (TextFile s) \<and> list_all is_space s)"
  shows "get_document_chunks fs content_path doc_id chunks_path_arg = []"
proof -
  show ?thesis
  proof (cases "fs content_path")
    case None
    then show ?thesis by (simp add: get_document_chunks_def read_text_def)
  next
    case (Some f)
    with assms obtain s where 2: "fs content_path = Some (TextFile s)" "list_all is_space s"
      by auto
    let ?c = "universal_newlines s"
    from 2 have r: "read_text fs content_path = Inr ?c" by (simp add: read_text_def)
    from 2 have b: "list_all is_space ?c" by (simp add: universal_newlines_blank)
    have "filter (\<lambda>chunk. strip chunk \<noteq> []) (re_split_marker [] ?c) = []"
      using re_split_marker_blank[OF b, of "[]"] strip_blank[OF b] by simp
    then show ?thesis
      by (simp add: get_document_chunks_def r Let_def split: sum.splits)
  qed
qed

text \<open>
  Claim C5, as the code has it. For a document id whose content file is absent, or holds
  nothing but white space (the empty file included), \<open>get_document_chunks\<close> returns
  the empty list and raises nothing; \<open>create_document_vector_db\<close> returns \<open>None\<close>
  for it; and \<open>query_document\<close> returns its result for a document that could not be
  processed, with confidence 0. There is no \<open>NotFoundError\<close> in the program.
\<close>

theorem missing_document_loads_empty:
  assumes "fs (content_path_of doc_id) = None
           \<or> (\<exists>s. fs (content_path_of doc_id) = Some (TextFile s) \<and> list_all is_space s)"
  shows "get_document_chunks fs (content_path_of doc_id) doc_id chunks_path_arg = []
         \<and> create_document_vector_db env fs doc_id = None
         \<and> query_document env fs query content_path doc_id
             = Inr \<lparr>q_answer = ''Error: Could not process document '' @ doc_id,
                    q_citation = ''Error'', q_confidence = 0\<rparr>"
proof -
  have e: "get_document_chunks fs (content_path_of doc_id) doc_id c = []" for c
    using assms by (rule get_document_chunks_blank)
  then have d: "create_document_vector_db env fs doc_id = None"
    by (simp add: create_document_vector_db_def)
  with e show ?thesis
    by (simp add: query_document_def query_document_body_def)
qed

theorem missing_document_loads_empty_witness:
  "get_document_chunks example_fs (content_path_of ''d3'') ''d3'' None = []
   \<and> create_document_vector_db example_services example_fs ''d3'' = None
   \<and> map_sum id q_answer (query_document example_services example_fs ''q'' ''p'' ''d3'')
       = Inr ''Error: Could not process document d3''"
proof -
  have absent: "example_fs (content_path_of ''d3'') = None"
    by code_simp
  from missing_document_loads_empty
         [where fs = example_fs and doc_id = "''d3''" and chunks_path_arg = None
            and env = example_services and query = "''q''" and content_path = "''p''"]
  show ?thesis using absent by simp
qed

text \<open>
  The claim as stated asks for an error result in place of an empty collection: for the
  absent document \<open>d3\<close>, and for \<open>d3\<close> with an empty content file, the load returns
  the empty list.
\<close>

theorem absent_and_empty_load_as_empty_list:
  "get_document_chunks example_fs (content_path_of ''d3'') ''d3'' None = []
   \<and> get_document_chunks (example_fs(content_path_of ''d3'' \<mapsto> TextFile []))
        (content_path_of ''d3'') ''d3'' None = []"
  by code_simp

section \<open>Citations of a single-document query\<close>

text \<open>
  Every chunk that \<open>get_document_chunks\<close> returns carries a citation, which ends in the
  decimal numeral of its position; so the chunks of one document have pairwise different
  citations.
\<close>

lemma digit_char_digit: "d < 10 \<Longrightarrow> is_digit (digit_char d)"
  unfolding is_digit_def digit_char_def by (rule nth_mem) simp


lemma str_nat_digits: "list_all is_digit (str_nat n)"
proof (induction n rule: str_nat.induct)
  case (1 n)
  show ?case
  proof (cases "n < 10")
    case True
    then show ?thesis by (subst str_nat.simps) (simp add: digit_char_digit)
  next
    case False
    with 1 show ?thesis by (subst str_nat.simps) (simp add: digit_char_digit)
  qed
qed

lemma str_nat_nonempty: "str_nat n \<noteq> []" "[] \<noteq> str_nat n"
  by (subst str_nat.simps, simp)+













section \<open>Theme names\<close>

lemma match_sentence_none:
  "\<forall>c \<in> set s. \<not> is_terminator c \<Longrightarrow> match_sentence s = None"
  by (induction s) simp_all

lemma re_search_sentence_none:
  "\<forall>c \<in> set s. \<not> is_terminator c \<Longrightarrow> re_search_sentence s = None"
  by (induction s) (simp_all add: match_sentence_none)

lemma match_sentence_first:
  assumes "\<exists>c \<in> set s. is_terminator c"
    and "NL \<notin> set (takeWhile (\<lambda>c. \<not> is_terminator c) s)"
  shows "match_sentence s = Some (first_sentence_prefix s)"
  using assms
proof (induction s)
  case Nil
  then show ?case by simp
next
  case (Cons c cs)
  show ?case
  proof (cases "is_terminator c")
    case True
    then show ?thesis by (simp add: first_sentence_prefix_def)
  next
    case False
    with Cons.prems have "\<exists>c \<in> set cs. is_terminator c"
      and "NL \<notin> set (takeWhile (\<lambda>c. \<not> is_terminator c) cs)" and "c \<noteq> NL"
      by auto
    with Cons.IH False show ?thesis
      by (simp add: first_sentence_prefix_def)
  qed
qed

lemma re_search_sentence_first:
  assumes "\<exists>c \<in> set s. is_terminator c"
    and "NL \<notin> set (takeWhile (\<lambda>c. \<not> is_terminator c) s)"
  shows "re_search_sentence s = Some (first_sentence_prefix s)"
proof (cases s)
  case Nil
  with assms show ?thesis by simp
next
  case (Cons c cs)
  with match_sentence_first[OF assms] show ?thesis by simp
qed

lemma theme_name_first:
  assumes "\<exists>c \<in> set s. is_terminator c"
    and "NL \<notin> set (takeWhile (\<lambda>c. \<not> is_terminator c) s)"
  shows "theme_name s = (if length (first_sentence_prefix s) > 50
                          then take 47 (first_sentence_prefix s) @ ''...''
                          else first_sentence_prefix s)"
  by (simp add: theme_name_def re_search_sentence_first[OF assms])

lemma theme_name_unbroken:
  assumes "\<forall>c \<in> set s. \<not> is_terminator c"
  shows "theme_name s = (if length s > 50 then take 50 s @ ''...'' else s)"
  by (simp add: theme_name_def re_search_sentence_none[OF assms])

lemma create_themes_names:
  "create_themes i rs = Inr ts \<Longrightarrow>
     length ts = length rs
     \<and> (\<forall>k < length rs. t_name (ts ! k)
            = ''Theme '' @ str_nat (i + k + 1) @ '': '' @ theme_name (page_content (rs ! k)))"
proof (induction rs arbitrary: i ts)
  case Nil
  then show ?case by simp
next
  case (Cons r rs)
  from Cons.prems obtain others where
    rest: "create_themes (i + 1) rs = Inr others"
    and ts: "t_name (hd ts) = ''Theme '' @ str_nat (i + 1) @ '': '' @ theme_name (page_content r)"
            "ts = hd ts # others"
    by (auto split: option.splits sum.splits)
  from Cons.IH[OF rest] have len: "length others = length rs"
    and names: "\<And>k. k < length rs \<Longrightarrow> t_name (others ! k)
            = ''Theme '' @ str_nat (i + 1 + k + 1) @ '': '' @ theme_name (page_content (rs ! k))"
    by simp_all
  have "t_name (ts ! k)
          = ''Theme '' @ str_nat (i + k + 1) @ '': '' @ theme_name (page_content ((r # rs) ! k))"
    if "k < length (r # rs)" for k
  proof (cases k)
    case 0
    with ts show ?thesis by (metis nth_Cons_0 add_0_right)
  next
    case (Suc j)
    with that have "j < length rs" by simp
    from names[OF this] Suc ts(2) show ?thesis
      by (metis nth_Cons_Suc add_Suc_right add_Suc Suc_eq_plus1)
  qed
  moreover from ts(2) len have "length ts = length (r # rs)"
    by (metis length_Cons)
  ultimately show ?case by blast
qed

lemma expand_step_name: "expand_step t d = Inr t' \<Longrightarrow> t_name t' = t_name t"
  by (auto simp: expand_step_def split: option.splits if_splits)

lemma expand_theme_name: "expand_theme t ds = Inr t' \<Longrightarrow> t_name t' = t_name t"
proof (induction ds arbitrary: t)
  case Nil
  then show ?case by simp
next
  case (Cons d ds)
  from Cons.prems obtain t1 where s: "expand_step t d = Inr t1"
    and r: "expand_theme t1 ds = Inr t'"
    by (auto split: sum.splits)
  from Cons.IH[OF r] expand_step_name[OF s] show ?case by simp
qed

lemma expand_themes_names:
  "expand_themes env db ts = Inr ts' \<Longrightarrow> map t_name ts' = map t_name ts"
proof (induction ts arbitrary: ts')
  case Nil
  then show ?case by simp
next
  case (Cons t ts)
  from Cons.prems obtain t1 others where
    e: "expand_theme t (drop 1 (query_vector_db env (Some db) (t_description t) 10)) = Inr t1"
    and r: "expand_themes env db ts = Inr others" and ts': "ts' = t1 # others"
    by (auto simp: Let_def split: sum.splits)
  from Cons.IH[OF r] expand_theme_name[OF e] ts' show ?case by simp
qed

lemma build_themes_names:
  assumes "build_themes env fs query doc_ids top_n = Inr (Some ts)"
    and "top_results = query_vector_db env (create_multi_document_vector_db env fs doc_ids) query top_n"
  shows "length ts = length top_results
         \<and> (\<forall>k < length top_results. t_name (ts ! k)
               = ''Theme '' @ str_nat (k + 1) @ '': '' @ theme_name (page_content (top_results ! k)))"
proof -
  from assms obtain db ts0 where
    db: "create_multi_document_vector_db env fs doc_ids = Some db"
    and c: "create_themes 0 top_results = Inr ts0"
    and e: "expand_themes env db ts0 = Inr ts"
    by (auto simp: build_themes_def Let_def split: option.splits sum.splits)
  from create_themes_names[OF c] have len0: "length ts0 = length top_results"
    and names0: "\<And>k. k < length top_results \<Longrightarrow> t_name (ts0 ! k)
            = ''Theme '' @ str_nat (k + 1) @ '': '' @ theme_name (page_content (top_results ! k))"
    by simp_all
  from expand_themes_names[OF e] have m: "map t_name ts = map t_name ts0" .
  then have len: "length ts = length ts0"
    by (rule map_eq_imp_length_eq)
  have "t_name (ts ! k) = t_name (ts0 ! k)" if "k < length ts0" for k
    using m that len by (metis nth_map)
  with len len0 names0 show ?thesis by simp
qed

lemma identify_themes_multi:
  assumes "identify_themes env fs query document_results top_n = Inr res
           \<or> identify_themes_modern env fs query document_results top_n = Inr res"
    and "2 \<le> length document_results"
  shows "themes res = []
         \<or> build_themes env fs query (map r_doc_id document_results) top_n = Inr (Some (themes res))"
proof -
  from assms(2) obtain r r' rs where d: "document_results = r # r' # rs"
    by (cases document_results; cases "tl document_results") auto
  with assms(1) show ?thesis
    by (auto simp: identify_themes_def identify_themes_modern_def Let_def
             split: option.splits sum.splits)
qed

text \<open>
  Claim C8, as the code has it. On the multi-document path of \<open>identify_themes\<close> and of
  the method of \<open>ModernThemeProcessor\<close>, the name of the theme at index \<open>k\<close> is
  \<open>Theme k+1: \<close> followed by a label made from the text of the \<open>k\<close>-th retrieved chunk.
  When the text has a terminator (\<open>.\<close>, \<open>!\<close> or \<open>?\<close>) and no line feed before the
  first one, the label is the prefix up to and including that terminator, or, when that
  prefix has more than 50 characters, its first 47 characters and \<open>...\<close>; the label then
  has at most 50 characters. When the text has no terminator, the label is the text, or,
  when the text has more than 50 characters, its first 50 characters and \<open>...\<close>.
\<close>

theorem theme_name_from_first_sentence:
  assumes "identify_themes env fs query document_results top_n = Inr res
           \<or> identify_themes_modern env fs query document_results top_n = Inr res"
    and "2 \<le> length document_results"
    and "top_results = query_vector_db env
           (create_multi_document_vector_db env fs (map r_doc_id document_results)) query top_n"
    and "k < length (themes res)"
    and "content = page_content (top_results ! k)"
  shows "t_name (themes res ! k) = ''Theme '' @ str_nat (k + 1) @ '': '' @ theme_name content
         \<and> ((\<exists>c \<in> set content. is_terminator c)
                \<and> NL \<notin> set (takeWhile (\<lambda>c. \<not> is_terminator c) content)
              \<longrightarrow> theme_name content
                    = (if length (first_sentence_prefix content) > 50
                       then take 47 (first_sentence_prefix content) @ ''...''
                       else first_sentence_prefix content)
                  \<and> length (theme_name content) \<le> 50)
         \<and> ((\<forall>c \<in> set content. \<not> is_terminator c)
              \<longrightarrow> theme_name content
                    = (if length content > 50 then take 50 content @ ''...'' else content))"
proof (intro conjI impI)
  from identify_themes_multi[OF assms(1,2)] assms(4)
  have "build_themes env fs query (map r_doc_id document_results) top_n = Inr (Some (themes res))"
    by auto
  from build_themes_names[OF this assms(3)] assms(4,5)
  show "t_name (themes res ! k) = ''Theme '' @ str_nat (k + 1) @ '': '' @ theme_name content"
    by simp
next
  assume a: "(\<exists>c \<in> set content. is_terminator c)
                \<and> NL \<notin> set (takeWhile (\<lambda>c. \<not> is_terminator c) content)"
  then show n: "theme_name content
                    = (if length (first_sentence_prefix content) > 50
                       then take 47 (first_sentence_prefix content) @ ''...''
                       else first_sentence_prefix content)"
    using theme_name_first by blast
  show "length (theme_name content) \<le> 50"
    unfolding n by simp
next
  assume "\<forall>c \<in> set content. \<not> is_terminator c"
  then show "theme_name content = (if length content > 50 then take 50 content @ ''...'' else content)"
    by (rule theme_name_unbroken)
qed

theorem theme_name_from_first_sentence_witness:
  "(\<exists>res. identify_themes example_services example_fs ''q'' example_results 5 = Inr res
       \<and> t_name (themes res ! 0) = ''Theme 1: Alpha.'')
   \<and> (\<exists>res. identify_themes_modern example_services naming_fs ''q'' example_results 5 = Inr res
       \<and> t_name (themes res ! 0) = ''Theme 1: '' @ take 50 unbroken_text @ ''...'')"
proof (intro conjI)
  let ?run = "identify_themes example_services example_fs ''q'' example_results 5"
  let ?top = "query_vector_db example_services
           (create_multi_document_vector_db example_services example_fs (map r_doc_id example_results))
           ''q'' 5"
  have "\<not> isl ?run" by code_simp
  then obtain res where run: "?run = Inr res" by (cases ?run) auto
  have "map_sum id (length \<circ> themes) ?run = Inr 3" by code_simp
  with run have k: "0 < length (themes res)" by simp
  have docs: "2 \<le> length example_results" by (simp add: example_results_def)
  have content: "''Alpha.'' = page_content (?top ! 0)" by code_simp
  have t: "(\<exists>c \<in> set ''Alpha.''. is_terminator c)
           \<and> NL \<notin> set (takeWhile (\<lambda>c. \<not> is_terminator c) ''Alpha.'')"
    by (simp add: is_terminator_def)
  have p: "first_sentence_prefix ''Alpha.'' = ''Alpha.''" by code_simp
  have n: "''Theme '' @ str_nat (0 + 1) @ '': '' @ ''Alpha.'' = ''Theme 1: Alpha.''" by code_simp
  note T = theme_name_from_first_sentence [OF disjI1, OF run docs refl k content]
  from T t have "theme_name ''Alpha.'' = (if length (first_sentence_prefix ''Alpha.'') > 50
                       then take 47 (first_sentence_prefix ''Alpha.'') @ ''...''
                       else first_sentence_prefix ''Alpha.'')"
    by blast
  then have "theme_name ''Alpha.'' = ''Alpha.''"
    unfolding p by simp
  with T n have "t_name (themes res ! 0) = ''Theme 1: Alpha.''"
    by (simp only:)
  with run show "\<exists>res. ?run = Inr res \<and> t_name (themes res ! 0) = ''Theme 1: Alpha.''"
    by blast
next
  let ?run = "identify_themes_modern example_services naming_fs ''q'' example_results 5"
  let ?top = "query_vector_db example_services
           (create_multi_document_vector_db example_services naming_fs (map r_doc_id example_results))
           ''q'' 5"
  have "\<not> isl ?run" by code_simp
  then obtain res where run: "?run = Inr res" by (cases ?run) auto
  have "map_sum id (length \<circ> themes) ?run = Inr 2" by code_simp
  with run have k: "0 < length (themes res)" by simp
  have docs: "2 \<le> length example_results" by (simp add: example_results_def)
  have content: "unbroken_text = page_content (?top ! 0)" by code_simp
  have t: "\<forall>c \<in> set unbroken_text. \<not> is_terminator c"
    by (simp add: unbroken_text_def is_terminator_def)
  have l: "length unbroken_text > 50" by (simp add: unbroken_text_def)
  have n: "''Theme '' @ str_nat (0 + 1) @ '': '' = ''Theme 1: ''" by code_simp
  note T = theme_name_from_first_sentence [OF disjI2, OF run docs refl k content]
  from T t have "theme_name unbroken_text
                   = (if length unbroken_text > 50 then take 50 unbroken_text @ ''...''
                      else unbroken_text)"
    by blast
  with l have "theme_name unbroken_text = take 50 unbroken_text @ ''...''"
    by (simp only: if_True)
  with T have "t_name (themes res ! 0)
                 = ''Theme '' @ str_nat (0 + 1) @ '': '' @ take 50 unbroken_text @ ''...''"
    by (simp only:)
  then have "t_name (themes res ! 0) = ''Theme 1: '' @ take 50 unbroken_text @ ''...''"
    using n by (metis append_assoc)
  with run show "\<exists>res. ?run = Inr res
       \<and> t_name (themes res ! 0) = ''Theme 1: '' @ take 50 unbroken_text @ ''...''"
    by blast
qed

text \<open>
  The claim as stated fails on the store \<open>naming_fs\<close>: the name carries the prefix
  \<open>Theme 1: \<close>; for the 51 letters without a terminator the label has 53 characters,
  the first 50 and an ellipsis; and for the two-line text, whose prefix up to the first
  terminator is the whole text, the label is the second line alone, since \<open>.\<close> in the
  pattern does not match a line feed.
\<close>

theorem theme_name_differs_from_first_sentence:
  "map_sum id (map t_name \<circ> themes)
     (identify_themes example_services naming_fs ''q'' example_results 5)
     = Inr [''Theme 1: '' @ take 50 unbroken_text @ ''...'', ''Theme 2: Body.'']
   \<and> map_sum id (map t_description \<circ> themes)
     (identify_themes example_services naming_fs ''q'' example_results 5)
     = Inr [unbroken_text, two_line_text]
   \<and> length (theme_name unbroken_text) = 53
   \<and> theme_name unbroken_text \<noteq> take 50 unbroken_text
   \<and> first_sentence_prefix two_line_text = two_line_text
   \<and> theme_name two_line_text = ''Body.''"
  by code_simp

section \<open>Extraction pipeline: results\<close>

lemma split_and_save_flag:
  assumes "split_and_save env fs file_path doc_id file_ext documents ocr_used
             = (ProcessSuccess d n ft b, fs')"
  shows "b = ocr_used
         \<and> (\<exists>summary. fs' (metadata_path_of doc_id) = Some (MetadataJson summary)
                \<and> s_ocr_used summary = ocr_used)"
  using assms
  by (auto simp: split_and_save_def write_file_def Let_def
           split: sum.splits option.splits prod.splits)

text \<open>
  Claim C2, as the code has it. For a PDF whose fast extraction returns, with the output
  directory in place: when the stripped total text has fewer than 100 characters, the
  OCR loader is run, and run once more if it raises; what the fast loader returned is
  not used again, the chunks are made from the OCR result, and a success result and the
  stored summary have \<open>ocr_used\<close> true; when both OCR runs raise, the result is the
  error result with the message of the second exception. With 100 characters or more the
  fast result is kept, and a success result and the stored summary have \<open>ocr_used\<close>
  false.
\<close>

theorem short_pdf_text_switches_to_ocr:
  assumes "makedirs_error env ''processed'' = None"
    and "lower (splitext_ext file_path) = ''.pdf''"
    and "PyPDFLoader_load env file_path = Inr documents"
  shows "(length (strip (concat (map page_content documents))) < 100 \<longrightarrow>
            process_document env fs file_path doc_id
              = (case UnstructuredPDFLoader_load env 0 file_path of
                   Inr ocr_documents \<Rightarrow>
                     split_and_save env fs file_path doc_id ''.pdf'' ocr_documents True
                 | Inl e \<Rightarrow>
                     (case UnstructuredPDFLoader_load env 1 file_path of
                        Inr ocr_documents \<Rightarrow>
                          split_and_save env fs file_path doc_id ''.pdf'' ocr_documents True
                      | Inl e' \<Rightarrow> (ProcessError doc_id (str_error e'), fs)))
            \<and> (\<forall>d n ft b fs'. process_document env fs file_path doc_id
                                 = (ProcessSuccess d n ft b, fs')
                  \<longrightarrow> b \<and> (\<exists>summary. fs' (metadata_path_of doc_id) = Some (MetadataJson summary)
                               \<and> s_ocr_used summary)))
         \<and> (\<not> length (strip (concat (map page_content documents))) < 100 \<longrightarrow>
            process_document env fs file_path doc_id
              = split_and_save env fs file_path doc_id ''.pdf'' documents False
            \<and> (\<forall>d n ft b fs'. process_document env fs file_path doc_id
                                 = (ProcessSuccess d n ft b, fs')
                  \<longrightarrow> \<not> b \<and> (\<exists>summary. fs' (metadata_path_of doc_id) = Some (MetadataJson summary)
                               \<and> \<not> s_ocr_used summary)))"
proof (intro conjI impI)
  assume short: "length (strip (concat (map page_content documents))) < 100"
  with assms show run: "process_document env fs file_path doc_id
              = (case UnstructuredPDFLoader_load env 0 file_path of
                   Inr ocr_documents \<Rightarrow>
                     split_and_save env fs file_path doc_id ''.pdf'' ocr_documents True
                 | Inl e \<Rightarrow>
                     (case UnstructuredPDFLoader_load env 1 file_path of
                        Inr ocr_documents \<Rightarrow>
                          split_and_save env fs file_path doc_id ''.pdf'' ocr_documents True
                      | Inl e' \<Rightarrow> (ProcessError doc_id (str_error e'), fs)))"
    by (simp add: process_document_def load_documents_def Let_def split: sum.splits)
  show "\<forall>d n ft b fs'. process_document env fs file_path doc_id = (ProcessSuccess d n ft b, fs')
          \<longrightarrow> b \<and> (\<exists>summary. fs' (metadata_path_of doc_id) = Some (MetadataJson summary)
                       \<and> s_ocr_used summary)"
  proof (intro allI impI)
    fix d n ft b fs'
    assume "process_document env fs file_path doc_id = (ProcessSuccess d n ft b, fs')"
    then obtain ocr_documents where
      "split_and_save env fs file_path doc_id ''.pdf'' ocr_documents True
         = (ProcessSuccess d n ft b, fs')"
      unfolding run by (auto split: sum.splits)
    from split_and_save_flag[OF this]
    show "b \<and> (\<exists>summary. fs' (metadata_path_of doc_id) = Some (MetadataJson summary)
                       \<and> s_ocr_used summary)"
      by simp
  qed
next
  assume long: "\<not> length (strip (concat (map page_content documents))) < 100"
  with assms show run: "process_document env fs file_path doc_id
              = split_and_save env fs file_path doc_id ''.pdf'' documents False"
    by (simp add: process_document_def load_documents_def Let_def)
  show "\<forall>d n ft b fs'. process_document env fs file_path doc_id = (ProcessSuccess d n ft b, fs')
          \<longrightarrow> \<not> b \<and> (\<exists>summary. fs' (metadata_path_of doc_id) = Some (MetadataJson summary)
                       \<and> \<not> s_ocr_used summary)"
  proof (intro allI impI)
    fix d n ft b fs'
    assume "process_document env fs file_path doc_id = (ProcessSuccess d n ft b, fs')"
    then have "split_and_save env fs file_path doc_id ''.pdf'' documents False
         = (ProcessSuccess d n ft b, fs')"
      unfolding run .
    from split_and_save_flag[OF this]
    show "\<not> b \<and> (\<exists>summary. fs' (metadata_path_of doc_id) = Some (MetadataJson summary)
                       \<and> \<not> s_ocr_used summary)"
      by simp
  qed
qed

theorem short_pdf_text_switches_to_ocr_witness:
  "fst (process_document scanned_pdf Map.empty ''uploads/scan.pdf'' ''d1'')
     = ProcessSuccess ''d1'' 1 ''.pdf'' True
   \<and> (\<exists>summary. snd (process_document scanned_pdf Map.empty ''uploads/scan.pdf'' ''d1'')
                       (metadata_path_of ''d1'') = Some (MetadataJson summary)
                  \<and> s_ocr_used summary)
   \<and> fst (process_document text_pdf Map.empty ''uploads/scan.pdf'' ''d1'')
     = ProcessSuccess ''d1'' 1 ''.pdf'' False
   \<and> (\<exists>summary. snd (process_document text_pdf Map.empty ''uploads/scan.pdf'' ''d1'')
                       (metadata_path_of ''d1'') = Some (MetadataJson summary)
                  \<and> \<not> s_ocr_used summary)"
proof -
  let ?scan = "process_document scanned_pdf Map.empty ''uploads/scan.pdf'' ''d1''"
  let ?text = "process_document text_pdf Map.empty ''uploads/scan.pdf'' ''d1''"
  let ?docs = "[page_doc 0 (replicate 100 (CHR ''a''))]"
  have x: "lower (splitext_ext ''uploads/scan.pdf'') = ''.pdf''" by code_simp
  have m: "makedirs_error scanned_pdf ''processed'' = None"
    by (simp add: scanned_pdf_def example_services_def)
  have l: "PyPDFLoader_load scanned_pdf ''uploads/scan.pdf'' = Inr [page_doc 0 '' '']"
    by (simp add: scanned_pdf_def)
  have short: "length (strip (concat (map page_content [page_doc 0 '' '']))) < 100"
    by code_simp
  have o: "UnstructuredPDFLoader_load scanned_pdf 0 ''uploads/scan.pdf''
             = Inr [element_doc ''Scanned text.'']"
    by (simp add: scanned_pdf_def)
  have s: "fst (split_and_save scanned_pdf Map.empty ''uploads/scan.pdf'' ''d1'' ''.pdf''
                  [element_doc ''Scanned text.''] True)
             = ProcessSuccess ''d1'' 1 ''.pdf'' True"
    by code_simp
  note scan = short_pdf_text_switches_to_ocr [OF m x l, of Map.empty "''d1''"]
  from scan short
  have "?scan = (case UnstructuredPDFLoader_load scanned_pdf 0 ''uploads/scan.pdf'' of
                   Inr ocr_documents \<Rightarrow>
                     split_and_save scanned_pdf Map.empty ''uploads/scan.pdf'' ''d1'' ''.pdf''
                       ocr_documents True
                 | Inl e \<Rightarrow>
                     (case UnstructuredPDFLoader_load scanned_pdf 1 ''uploads/scan.pdf'' of
                        Inr ocr_documents \<Rightarrow>
                          split_and_save scanned_pdf Map.empty ''uploads/scan.pdf'' ''d1'' ''.pdf''
                            ocr_documents True
                      | Inl e' \<Rightarrow> (ProcessError ''d1'' (str_error e'), Map.empty)))"
    by blast
  then have r1: "fst ?scan = ProcessSuccess ''d1'' 1 ''.pdf'' True"
    by (simp only: o sum.case s)
  then have "?scan = (ProcessSuccess ''d1'' 1 ''.pdf'' True, snd ?scan)"
    by (simp add: prod_eq_iff)
  with scan short
  have r2: "\<exists>summary. snd ?scan (metadata_path_of ''d1'') = Some (MetadataJson summary)
                  \<and> s_ocr_used summary"
    by blast
  have m': "makedirs_error text_pdf ''processed'' = None"
    by (simp add: text_pdf_def example_services_def)
  have l': "PyPDFLoader_load text_pdf ''uploads/scan.pdf'' = Inr ?docs"
    by (simp add: text_pdf_def)
  have long: "\<not> length (strip (concat (map page_content ?docs))) < 100"
    by code_simp
  have s': "fst (split_and_save text_pdf Map.empty ''uploads/scan.pdf'' ''d1'' ''.pdf'' ?docs False)
             = ProcessSuccess ''d1'' 1 ''.pdf'' False"
    by code_simp
  note kept = short_pdf_text_switches_to_ocr [OF m' x l', of Map.empty "''d1''"]
  from kept long
  have "?text = split_and_save text_pdf Map.empty ''uploads/scan.pdf'' ''d1'' ''.pdf'' ?docs False"
    by blast
  then have r3: "fst ?text = ProcessSuccess ''d1'' 1 ''.pdf'' False"
    by (simp only: s')
  then have "?text = (ProcessSuccess ''d1'' 1 ''.pdf'' False, snd ?text)"
    by (simp add: prod_eq_iff)
  with kept long
  have r4: "\<exists>summary. snd ?text (metadata_path_of ''d1'') = Some (MetadataJson summary)
                  \<and> \<not> s_ocr_used summary"
    by blast
  from r1 r2 r3 r4 show ?thesis by blast
qed

text \<open>
  The claim as stated promises a result with \<open>ocr_used\<close> true for every such PDF with
  little text. On \<open>ocr_down\<close> the fast loader returns one blank page, both OCR runs
  raise, and the result is the error result, which has no \<open>ocr_used\<close> field.
\<close>

theorem failed_ocr_rerun_gives_error_result:
  "map page_content (projr (PyPDFLoader_load ocr_down ''uploads/scan.pdf'')) = ['' '']
   \<and> fst (process_document ocr_down Map.empty ''uploads/scan.pdf'' ''d1'')
       = ProcessError ''d1'' ''tesseract is not installed''"
  by code_simp





section \<open>Round trip of the chunk texts\<close>

text \<open>
  A match of the delimiter pattern that starts inside a chunk text ends inside that text
  or at the line feed written after it: the line feed and the delimiter that follows
  cannot complete it. So a text that is free of the delimiter is read back in one piece.
\<close>

lemma strip_prefix_iff: "strip_prefix p s = Some y \<longleftrightarrow> s = p @ y"
  by (induction p s rule: strip_prefix.induct) auto

lemma strip_prefix_within:
  assumes "strip_prefix p (t @ rest) = Some y" and "suffix [x, NL] t"
    and "NL \<notin> set (tl (butlast p))"
  shows "\<exists>y'. t = p @ y' \<and> y = y' @ rest"
proof -
  from assms(1) have "t @ rest = p @ y" by (simp add: strip_prefix_iff)
  then obtain us where "(t = p @ us \<and> us @ rest = y) \<or> (t @ us = p \<and> rest = us @ y)"
    by (auto simp: append_eq_append_conv2)
  then show ?thesis
  proof
    assume "t = p @ us \<and> us @ rest = y"
    then show ?thesis by blast
  next
    assume a: "t @ us = p \<and> rest = us @ y"
    show ?thesis
    proof (cases "us = []")
      case True
      with a show ?thesis by simp
    next
      case False
      from assms(2) obtain w where w: "t = w @ [x, NL]" by (auto simp: suffix_def)
      from False have "butlast (w @ [x, NL] @ us) = w @ [x, NL] @ butlast us"
        by (simp add: butlast_append)
      with a w have "butlast p = w @ x # NL # butlast us" by auto
      then have "NL \<in> set (tl (butlast p))" by (cases w) auto
      with assms(3) show ?thesis by simp
    qed
  qed
qed

lemma tail_form_gen:
  assumes "suffix [x, n] (p @ y)" and "p \<noteq> []" and "last p \<noteq> n"
  shows "(y = [n] \<and> last p = x) \<or> suffix [x, n] y"
proof -
  from assms(1) have "suffix [x, n] y \<or> (\<exists>xs'. [x, n] = xs' @ y \<and> suffix xs' p)"
    by (simp only: suffix_append)
  then show ?thesis
  proof (elim disjE exE conjE)
    assume "suffix [x, n] y"
    then show ?thesis by simp
  next
    fix xs'
    assume e: "[x, n] = xs' @ y" and s: "suffix xs' p"
    from s obtain q where q: "p = q @ xs'" by (auto simp: suffix_def)
    show ?thesis
    proof (cases xs')
      case Nil
      with e show ?thesis by simp
    next
      case (Cons a as)
      note outer = this
      show ?thesis
      proof (cases as)
        case Nil
        with outer e q show ?thesis by simp
      next
        case (Cons b bs)
        with outer e have "xs' = [x, n]" by simp
        with q assms(3) show ?thesis by simp
      qed
    qed
  qed
qed

lemmas tail_form = tail_form_gen[where n = NL]

lemma drop_space_tail:
  assumes "suffix [x, NL] t" and "\<not> is_space x"
  shows "dropWhile is_space (t @ rest) = dropWhile is_space t @ rest"
    and "suffix [x, NL] (dropWhile is_space t)"
proof -
  from assms(1) obtain w where w: "t = w @ [x, NL]" by (auto simp: suffix_def)
  with assms(2) show "dropWhile is_space (t @ rest) = dropWhile is_space t @ rest"
    by (intro dropWhile_append1[of x]) auto
  from assms(2) have "dropWhile is_space (w @ [x, NL]) = dropWhile is_space w @ [x, NL]"
    by (simp add: dropWhile_append)
  with w show "suffix [x, NL] (dropWhile is_space t)" by (simp add: suffix_def)
qed

lemma digit_tail:
  assumes "suffix [x, NL] t"
  shows "takeWhile is_digit (t @ rest) = takeWhile is_digit t"
    and "dropWhile is_digit (t @ rest) = dropWhile is_digit t @ rest"
    and "dropWhile is_digit t = [NL] \<or> suffix [x, NL] (dropWhile is_digit t)"
proof -
  from assms(1) obtain w where w: "t = w @ [x, NL]" by (auto simp: suffix_def)
  have nd: "\<not> is_digit NL" by (simp add: is_digit_def)
  from w nd show "takeWhile is_digit (t @ rest) = takeWhile is_digit t"
    by (intro takeWhile_append1[of NL]) auto
  from w nd show "dropWhile is_digit (t @ rest) = dropWhile is_digit t @ rest"
    by (intro dropWhile_append1[of NL]) auto
  from nd have "dropWhile is_digit (w @ [x, NL])
                  = (if \<forall>c \<in> set w. is_digit c
                     then (if is_digit x then [NL] else [x, NL])
                     else dropWhile is_digit w @ [x, NL])"
    by (simp add: dropWhile_append)
  with w show "dropWhile is_digit t = [NL] \<or> suffix [x, NL] (dropWhile is_digit t)"
    by (auto simp: suffix_def)
qed

lemma after_line_feed:
  assumes "rest = [] \<or> (\<exists>k more. rest = chunk_marker k @ more)"
  shows "strip_prefix ''Document Chunk '' (dropWhile is_space ([NL] @ rest)) = None"
    and "strip_prefix (''---'' @ [NL]) (dropWhile is_space ([NL] @ rest)) = None"
    and "strip_prefix (NL # ''---'') ([NL] @ rest) = None"
  using assms by (auto simp: chunk_marker_def is_space_def)

lemma match_marker_local:
  assumes t: "suffix [x, NL] t" and x: "\<not> is_space x"
    and rest: "rest = [] \<or> (\<exists>k more. rest = chunk_marker k @ more)"
    and m: "match_marker (t @ rest) = Some r"
  shows "\<exists>r'. match_marker t = Some r'"
proof -
  from m obtain s1 where s1: "strip_prefix (NL # ''---'') (t @ rest) = Some s1"
    unfolding match_marker_def by (cases "strip_prefix (NL # ''---'') (t @ rest)") simp_all
  from m s1 obtain s2 where
    s2: "strip_prefix ''Document Chunk '' (dropWhile is_space s1) = Some s2"
    unfolding match_marker_def
    by (cases "strip_prefix ''Document Chunk '' (dropWhile is_space s1)") simp_all
  from m s1 s2 have d: "takeWhile is_digit s2 \<noteq> []"
    and r: "strip_prefix (''---'' @ [NL]) (dropWhile is_space (dropWhile is_digit s2)) = Some r"
    unfolding match_marker_def by (simp_all split: if_splits)
  from strip_prefix_within[OF s1 t] obtain y1 where y1: "t = (NL # ''---'') @ y1" "s1 = y1 @ rest"
    by auto
  from t y1(1) have "(y1 = [NL] \<and> last (NL # ''---'') = x) \<or> suffix [x, NL] y1"
    by (intro tail_form) simp_all
  then show ?thesis
  proof
    assume "y1 = [NL] \<and> last (NL # ''---'') = x"
    with y1(2) s2 after_line_feed(1)[OF rest] show ?thesis by simp
  next
    assume t1: "suffix [x, NL] y1"
    define t2 where "t2 = dropWhile is_space y1"
    from drop_space_tail[OF t1 x] y1(2) have e2: "dropWhile is_space s1 = t2 @ rest"
      and t2: "suffix [x, NL] t2"
      by (simp_all add: t2_def)
    from s2 e2 have "strip_prefix ''Document Chunk '' (t2 @ rest) = Some s2" by simp
    from strip_prefix_within[OF this t2] obtain y3 where
      y3: "t2 = ''Document Chunk '' @ y3" "s2 = y3 @ rest"
      by auto
    from t2 y3(1) have "(y3 = [NL] \<and> last ''Document Chunk '' = x) \<or> suffix [x, NL] y3"
      by (intro tail_form) simp_all
    with x have t3: "suffix [x, NL] y3" by (auto simp: is_space_def)
    define t4 where "t4 = dropWhile is_digit y3"
    from digit_tail[OF t3] y3(2) have e4: "takeWhile is_digit s2 = takeWhile is_digit y3"
      and e4': "dropWhile is_digit s2 = t4 @ rest"
      and t4: "t4 = [NL] \<or> suffix [x, NL] t4"
      by (simp_all add: t4_def)
    from t4 show ?thesis
    proof
      assume "t4 = [NL]"
      with r e4' after_line_feed(2)[OF rest] show ?thesis by simp
    next
      assume t4': "suffix [x, NL] t4"
      define t5 where "t5 = dropWhile is_space t4"
      from drop_space_tail[OF t4' x] have e5: "dropWhile is_space (t4 @ rest) = t5 @ rest"
        and t5: "suffix [x, NL] t5"
        by (simp_all add: t5_def)
      from r e4' e5 have "strip_prefix (''---'' @ [NL]) (t5 @ rest) = Some r" by simp
      from strip_prefix_within[OF this t5] obtain y6 where y6: "t5 = (''---'' @ [NL]) @ y6"
        by auto
      have 1: "strip_prefix (NL # ''---'') t = Some y1"
        using y1(1) by (simp only: strip_prefix_iff)
      have 2: "strip_prefix ''Document Chunk '' (dropWhile is_space y1) = Some y3"
        using y3(1) unfolding t2_def by (simp only: strip_prefix_iff)
      have 3: "takeWhile is_digit y3 \<noteq> []"
        using d e4 by simp
      have 4: "strip_prefix (''---'' @ [NL]) (dropWhile is_space (dropWhile is_digit y3)) = Some y6"
        using y6 unfolding t5_def t4_def by (simp only: strip_prefix_iff)
      have "match_marker t = Some y6"
        unfolding match_marker_def by (simp only: 1 2 3 4 option.case if_False)
      then show ?thesis by blast
    qed
  qed
qed

lemma match_marker_chunk_marker: "match_marker (chunk_marker n @ rest) = Some rest"
proof -
  have sp: "\<not> is_digit (CHR '' '')" "is_space (CHR '' '')" "\<not> is_space (CHR ''-'')"
    "\<not> is_space (CHR ''D'')"
    by (simp_all add: is_digit_def is_space_def)
  have dg: "\<forall>c \<in> set (str_nat n). is_digit c"
    using str_nat_digits[of n] by (simp add: list_all_iff)
  have 1: "strip_prefix (NL # ''---'') (chunk_marker n @ rest)
             = Some ('' Document Chunk '' @ str_nat n @ '' ---'' @ [NL] @ rest)"
    by (simp add: chunk_marker_def)
  have 2: "dropWhile is_space ('' Document Chunk '' @ str_nat n @ '' ---'' @ [NL] @ rest)
             = ''Document Chunk '' @ str_nat n @ '' ---'' @ [NL] @ rest"
    using sp by simp
  have 3: "strip_prefix ''Document Chunk '' (''Document Chunk '' @ str_nat n @ '' ---'' @ [NL] @ rest)
             = Some (str_nat n @ '' ---'' @ [NL] @ rest)"
    by simp
  have 4: "takeWhile is_digit (str_nat n @ '' ---'' @ [NL] @ rest) = str_nat n"
    using dg sp by simp
  have 5: "dropWhile is_digit (str_nat n @ '' ---'' @ [NL] @ rest) = '' ---'' @ [NL] @ rest"
    using dg sp by simp
  have 6: "dropWhile is_space ('' ---'' @ [NL] @ rest) = ''---'' @ [NL] @ rest"
    using sp by simp
  have 7: "strip_prefix (''---'' @ [NL]) (''---'' @ [NL] @ rest) = Some rest"
    by simp
  show ?thesis
    unfolding match_marker_def
    by (simp only: 1 2 3 4 5 6 7 option.case str_nat_nonempty if_False)
qed

lemma re_split_marker_scan:
  "(\<And>t. suffix t u \<Longrightarrow> t \<noteq> [] \<Longrightarrow> match_marker (t @ rest) = None)
     \<Longrightarrow> re_split_marker piece (u @ rest) = re_split_marker (piece @ u) rest"
proof (induction u arbitrary: piece)
  case Nil
  then show ?case by simp
next
  case (Cons c cs)
  have "match_marker ((c # cs) @ rest) = None"
    by (rule Cons.prems) simp_all
  then have "re_split_marker piece ((c # cs) @ rest) = re_split_marker (piece @ [c]) (cs @ rest)"
    by (simp add: re_split_marker.simps)
  also have "\<dots> = re_split_marker ((piece @ [c]) @ cs) rest"
    by (rule Cons.IH) (simp_all add: Cons.prems suffix_ConsI)
  finally show ?case by simp
qed

lemma stripped_ends:
  assumes "c \<noteq> []" and "strip c = c"
  shows "\<not> is_space (hd c)" and "\<not> is_space (last c)"
proof -
  let ?s = "dropWhile is_space c"
  from assms(2) have e: "rev c = dropWhile is_space (rev ?s)"
    unfolding strip_def by (metis rev_rev_ident)
  have "length (dropWhile is_space (rev ?s)) \<le> length (rev ?s)"
    by (rule length_dropWhile_le)
  with e have "length c \<le> length ?s" by (metis length_rev)
  moreover have "length ?s \<le> length c" by (rule length_dropWhile_le)
  ultimately have "length ?s = length c" by simp
  then have s: "?s = c"
    by (metis append_eq_conv_conj takeWhile_dropWhile_id append_self_conv2 length_0_conv
          length_append add_cancel_left_left)
  with assms(1) show "\<not> is_space (hd c)"
    by (metis hd_dropWhile)
  from e s have "rev c = dropWhile is_space (rev c)" by simp
  with assms(1) have "\<not> is_space (hd (rev c))"
    by (metis hd_dropWhile rev_is_Nil_conv)
  with assms(1) show "\<not> is_space (last c)" by (simp add: hd_rev)
qed

lemma strip_with_line_feed:
  assumes "c \<noteq> []" and "strip c = c"
  shows "strip (c @ [NL]) = c"
proof -
  from stripped_ends[OF assms] have h: "\<not> is_space (hd c)" and l: "\<not> is_space (last c)" .
  from assms(1) h have 1: "dropWhile is_space (c @ [NL]) = c @ [NL]"
    by (cases c) simp_all
  have nl: "is_space NL" by (simp add: is_space_def)
  from assms(1) l have "\<not> is_space (hd (rev c))" by (simp add: hd_rev)
  with assms(1) have "dropWhile is_space (rev c) = rev c"
    by (cases "rev c") simp_all
  with nl have 2: "dropWhile is_space (rev (c @ [NL])) = rev c" by simp
  show ?thesis unfolding strip_def 1 2 by simp
qed

lemma chunk_is_not_split:
  assumes c: "c \<noteq> []" "strip c = c" "marker_free (c @ [NL])"
    and rest: "rest = [] \<or> (\<exists>k more. rest = chunk_marker k @ more)"
  shows "re_split_marker piece ((c @ [NL]) @ rest) = re_split_marker (piece @ c @ [NL]) rest"
proof (rule re_split_marker_scan)
  fix t
  assume s: "suffix t (c @ [NL])" and ne: "t \<noteq> []"
  from s ne obtain zs where zs: "t = zs @ [NL]" "suffix zs c" by auto
  show "match_marker (t @ rest) = None"
  proof (cases "zs = []")
    case True
    with zs after_line_feed(3)[OF rest] show ?thesis
      by (simp add: match_marker_def)
  next
    case False
    from zs(2) obtain q where q: "c = q @ zs" by (auto simp: suffix_def)
    with False have "last zs = last c" by simp
    with stripped_ends(2)[OF c(1,2)] have x: "\<not> is_space (last zs)" by simp
    from False zs(1) have "t = butlast zs @ [last zs, NL]" by simp
    then have e: "suffix [last zs, NL] t" by (auto simp: suffix_def)
    from c(3) have "\<forall>t \<in> set (suffixes (c @ [NL])). match_marker t = None"
      by (simp only: marker_free_def list_all_iff)
    moreover from s have "t \<in> set (suffixes (c @ [NL]))"
      by (simp only: in_set_suffixes)
    ultimately have none: "match_marker t = None" by (rule bspec)
    show ?thesis
    proof (cases "match_marker (t @ rest)")
      case None
      then show ?thesis .
    next
      case (Some r)
      from match_marker_local[OF e x rest Some] none show ?thesis by simp
    qed
  qed
qed

lemma delimited_shape: "delimited i cs = [] \<or> (\<exists>k more. delimited i cs = chunk_marker k @ more)"
  by (cases cs) auto

lemma split_delimited:
  "\<forall>c \<in> set cs. c \<noteq> [] \<and> strip c = c \<and> marker_free (c @ [NL])
     \<Longrightarrow> re_split_marker piece (delimited i cs) = piece # map (\<lambda>c. c @ [NL]) cs"
proof (induction cs arbitrary: piece i)
  case Nil
  then show ?case by (simp add: re_split_marker.simps)
next
  case (Cons c cs)
  let ?rest = "delimited (i + 1) cs"
  have start: "chunk_marker (i + 1) @ (c @ [NL]) @ ?rest
                 = NL # tl (chunk_marker (i + 1)) @ (c @ [NL]) @ ?rest"
    by (simp add: chunk_marker_def)
  have "re_split_marker piece (delimited i (c # cs))
          = re_split_marker piece (chunk_marker (i + 1) @ (c @ [NL]) @ ?rest)"
    by simp
  also have "\<dots> = piece # re_split_marker [] ((c @ [NL]) @ ?rest)"
    using match_marker_chunk_marker[of "i + 1" "(c @ [NL]) @ ?rest"]
    unfolding start by (simp add: re_split_marker.simps)
  also have "re_split_marker [] ((c @ [NL]) @ ?rest) = re_split_marker ([] @ c @ [NL]) ?rest"
    using Cons.prems by (intro chunk_is_not_split delimited_shape) simp_all
  also have "re_split_marker ([] @ c @ [NL]) ?rest = (c @ [NL]) # map (\<lambda>c. c @ [NL]) cs"
    using Cons.prems by (simp add: Cons.IH)
  finally show ?case by simp
qed

lemma universal_newlines_id: "CR \<notin> set s \<Longrightarrow> universal_newlines s = s"
  by (induction s rule: universal_newlines.induct) auto

lemma chunk_marker_no_cr: "CR \<notin> set (chunk_marker n)"
proof -
  have "\<not> is_digit CR" by (simp add: is_digit_def)
  with str_nat_digits[of n] have "CR \<notin> set (str_nat n)"
    by (auto simp: list_all_iff)
  then show ?thesis by (simp add: chunk_marker_def)
qed

lemma delimited_no_cr: "\<forall>c \<in> set cs. CR \<notin> set c \<Longrightarrow> CR \<notin> set (delimited i cs)"
  by (induction cs arbitrary: i) (simp_all add: chunk_marker_no_cr)

lemma chunk_loop_result:
  "chunk_loop file_path doc_id i docs pages_info full_text
     = (pages_info @ map (\<lambda>(k, doc).
            \<lparr>m_page = Some (case m_page (metadata doc) of Some p \<Rightarrow> p
                                                           | None \<Rightarrow> PageInt (int k + 1)),
             m_doc_id = Some doc_id, m_chunk_id = Some (k + 1),
             m_source = Some file_path, m_citation = None\<rparr>) (enumerate i docs),
        full_text @ delimited i (map page_content docs))"
proof (induction docs arbitrary: i pages_info full_text)
  case Nil
  then show ?case by simp
next
  case (Cons doc docs)
  show ?case
    by (simp add: Cons.IH Let_def split: option.splits)
qed

lemma artifact_paths_differ:
  "content_path_of doc_id \<noteq> chunks_path_of doc_id"
  "content_path_of doc_id \<noteq> metadata_path_of doc_id"
  "chunks_path_of doc_id \<noteq> metadata_path_of doc_id"
  "chunks_path_of doc_id \<noteq> []"
  by (cases doc_id; simp add: content_path_of_def chunks_path_of_def metadata_path_of_def
        os_path_join_def)+

lemma load_delimited:
  assumes content: "fs content_path = Some (TextFile (delimited 0 cs))"
    and sidecar: "fs (case arg of Some p \<Rightarrow> if p = [] then chunks_path_of doc_id else p
                                 | None \<Rightarrow> chunks_path_of doc_id) = Some (ChunksJson info)"
    and good: "\<forall>c \<in> set cs. round_trip_text c"
  shows "map page_content (get_document_chunks fs content_path doc_id arg) = cs"
proof -
  from good have cr: "\<forall>c \<in> set cs. CR \<notin> set c"
    and split: "\<forall>c \<in> set cs. c \<noteq> [] \<and> strip c = c \<and> marker_free (c @ [NL])"
    by (simp_all add: round_trip_text_def)
  from content universal_newlines_id[OF delimited_no_cr[OF cr]]
  have r: "read_text fs content_path = Inr (delimited 0 cs)"
    by (simp add: read_text_def)
  from sidecar have j: "(if fs (case arg of Some p \<Rightarrow> if p = [] then chunks_path_of doc_id else p
                                 | None \<Rightarrow> chunks_path_of doc_id) \<noteq> None
           then json_load_chunks fs (case arg of Some p \<Rightarrow> if p = [] then chunks_path_of doc_id else p
                                 | None \<Rightarrow> chunks_path_of doc_id) else Inr []) = Inr info"
    by (simp add: json_load_chunks_def)
  have keep: "filter (\<lambda>chunk. strip chunk \<noteq> []) (map (\<lambda>c. c @ [NL]) cs) = map (\<lambda>c. c @ [NL]) cs"
    using split by (simp add: filter_id_conv strip_with_line_feed)
  have "strip [] = []" by (simp add: strip_def)
  then have pieces: "filter (\<lambda>chunk. strip chunk \<noteq> []) (re_split_marker [] (delimited 0 cs))
                 = map (\<lambda>c. c @ [NL]) cs"
    unfolding split_delimited[OF split] using keep by simp
  have texts: "map page_content (map (\<lambda>(i, text_chunk).
                   make_chunk_document tbl doc_id i text_chunk) (enumerate 0 chunks))
               = map strip chunks" for tbl chunks
  proof -
    have "map page_content (map (\<lambda>(i, text_chunk).
                   make_chunk_document tbl doc_id i text_chunk) (enumerate 0 chunks))
            = map (strip \<circ> snd) (enumerate 0 chunks)"
      by (simp add: make_chunk_document_def Let_def case_prod_unfold comp_def)
    also have "\<dots> = map strip (map snd (enumerate 0 chunks))"
      by (simp only: map_map)
    finally show ?thesis by (simp only: map_snd_enumerate)
  qed
  have "map page_content (get_document_chunks fs content_path doc_id arg)
          = map strip (map (\<lambda>c. c @ [NL]) cs)"
    unfolding get_document_chunks_def r j Let_def by (simp only: sum.case texts pieces)
  also have "\<dots> = cs"
    using split by (simp add: strip_with_line_feed map_idI)
  finally show ?thesis .
qed

text \<open>
  Claim C1, as the code has it. After a successful \<open>process_document\<close>, when every
  saved chunk text is not empty, has no white space at its ends, has no carriage return
  and holds no match of the delimiter pattern (also not one ending at the line feed
  written after it), \<open>get_document_chunks\<close> returns the saved chunk texts, in the saved
  order, with the sidecar path given or defaulted; their number is the \<open>chunks\<close> field
  of the result.
\<close>

theorem saved_chunks_load_back:
  assumes "makedirs_error env ''processed'' = None"
    and "load_documents env file_path (lower (splitext_ext file_path)) = Inr (documents, ocr_used)"
    and "(if documents \<noteq> [] then split_documents env documents else Inr []) = Inr split_docs"
    and "process_document env fs file_path doc_id = (ProcessSuccess d n ft b, fs')"
    and "\<forall>c \<in> set (map page_content split_docs). round_trip_text c"
  shows "map page_content
           (get_document_chunks fs' (content_path_of doc_id) doc_id (Some (chunks_path_of doc_id)))
           = map page_content split_docs
         \<and> map page_content (get_document_chunks fs' (content_path_of doc_id) doc_id None)
           = map page_content split_docs
         \<and> n = length split_docs"
proof -
  let ?ext = "lower (splitext_ext file_path)"
  let ?cs = "map page_content split_docs"
  obtain pages_info where loop:
    "chunk_loop file_path doc_id 0 split_docs [] [] = (pages_info, delimited 0 ?cs)"
    by (simp add: chunk_loop_result)
  from assms(1,2,4)
  have run: "split_and_save env fs file_path doc_id ?ext documents ocr_used
               = (ProcessSuccess d n ft b, fs')"
    by (simp add: process_document_def Let_def)
  let ?summary = "MetadataJson \<lparr>s_doc_id = doc_id, s_original_file = basename file_path,
                    s_file_type = ?ext, s_processing_time = strftime_now env,
                    s_chunks_count = length split_docs, s_ocr_used = ocr_used\<rparr>"
  from run assms(3) loop
  have fs': "fs' = fs(content_path_of doc_id \<mapsto> TextFile (delimited 0 ?cs),
                      chunks_path_of doc_id \<mapsto> ChunksJson pages_info,
                      metadata_path_of doc_id \<mapsto> ?summary)"
    and n: "n = length split_docs"
    by (auto simp: split_and_save_def write_file_def split: option.splits)
  from fs' have content: "fs' (content_path_of doc_id) = Some (TextFile (delimited 0 ?cs))"
    and sidecar: "fs' (chunks_path_of doc_id) = Some (ChunksJson pages_info)"
    by (simp_all add: artifact_paths_differ)
  from sidecar have s1: "fs' (case Some (chunks_path_of doc_id) of
                                Some p \<Rightarrow> if p = [] then chunks_path_of doc_id else p
                              | None \<Rightarrow> chunks_path_of doc_id) = Some (ChunksJson pages_info)"
    by simp
  from sidecar have s2: "fs' (case None of
                                Some p \<Rightarrow> if p = [] then chunks_path_of doc_id else p
                              | None \<Rightarrow> chunks_path_of doc_id) = Some (ChunksJson pages_info)"
    by simp
  from load_delimited[OF content s1 assms(5)] load_delimited[OF content s2 assms(5)] n
  show ?thesis by simp
qed

theorem saved_chunks_load_back_witness:
  "map page_content
     (get_document_chunks (snd (process_document text_pdf Map.empty ''uploads/scan.pdf'' ''d1''))
        (content_path_of ''d1'') ''d1'' None)
     = [replicate 100 (CHR ''a'')]"
proof -
  let ?run = "process_document text_pdf Map.empty ''uploads/scan.pdf'' ''d1''"
  let ?docs = "[page_doc 0 (replicate 100 (CHR ''a''))]"
  have m: "makedirs_error text_pdf ''processed'' = None"
    by (simp add: text_pdf_def example_services_def)
  have l: "load_documents text_pdf ''uploads/scan.pdf'' (lower (splitext_ext ''uploads/scan.pdf''))
             = Inr (?docs, False)"
    by code_simp
  have s: "(if ?docs \<noteq> [] then split_documents text_pdf ?docs else Inr []) = Inr ?docs"
    by (simp add: text_pdf_def example_services_def)
  have ok: "fst ?run = ProcessSuccess ''d1'' 1 ''.pdf'' False" by code_simp
  then have r: "?run = (ProcessSuccess ''d1'' 1 ''.pdf'' False, snd ?run)"
    by (simp add: prod_eq_iff)
  have g: "\<forall>c \<in> set (map page_content ?docs). round_trip_text c"
  proof -
    have "round_trip_text (replicate 100 (CHR ''a''))" by code_simp
    then show ?thesis by (simp add: page_doc_def)
  qed
  from saved_chunks_load_back [OF m l s r g] show ?thesis
    by (simp add: page_doc_def)
qed

text \<open>
  The claim as stated fails. A page with the line \<open>--- Document Chunk 7 ---\<close> is saved
  as one chunk and read back as two; a carriage return is read back as a line feed; and
  for the chunk texts \<open> Alpha \<close>, the empty text and \<open>Beta\<close>, what the loop of lines
  116 to 136 writes is read back as \<open>Alpha\<close> and \<open>Beta\<close>: the load strips each
  chunk and drops the blank ones.
\<close>

theorem delimiter_in_text_breaks_round_trip:
  "map page_content
     (get_document_chunks (snd (process_document marker_pdf Map.empty ''uploads/scan.pdf'' ''d1''))
        (content_path_of ''d1'') ''d1'' (Some (chunks_path_of ''d1'')))
     = [replicate 100 (CHR ''a''), ''Outro'']
   \<and> fst (process_document marker_pdf Map.empty ''uploads/scan.pdf'' ''d1'')
     = ProcessSuccess ''d1'' 1 ''.pdf'' False
   \<and> map page_content
     (get_document_chunks (snd (process_document cr_pdf Map.empty ''uploads/scan.pdf'' ''d1''))
        (content_path_of ''d1'') ''d1'' (Some (chunks_path_of ''d1'')))
     = [replicate 100 (CHR ''a'') @ [NL] @ ''b'']
   \<and> map page_content
     (get_document_chunks
        [content_path_of ''d1'' \<mapsto> TextFile (snd (chunk_loop ''f'' ''d1'' 0 padded_chunks [] [])),
         chunks_path_of ''d1'' \<mapsto> ChunksJson (fst (chunk_loop ''f'' ''d1'' 0 padded_chunks [] []))]
        (content_path_of ''d1'') ''d1'' (Some (chunks_path_of ''d1'')))
     = [''Alpha'', ''Beta'']"
  by code_simp

section \<open>Chunk indices and location labels\<close>









end
